theory Spec2Isabelle
  imports Main "HOL-Library.Word"
begin

unbundle bit_operations_syntax

section \<open>JavaScript numbers and typed arrays\<close>

text \<open>
  The engine is written in TypeScript. Its numbers are modelled as \<open>int\<close> (a JavaScript
  number represents every integer below \<open>2 ^ 53\<close> exactly); the bitwise operators convert
  their operands to 32 bits first, which is written out here through \<open>32 word\<close>:
  \<open>|\<close>, \<open>&\<close> and \<open><<\<close> give a signed 32-bit result, \<open>>>>\<close> an unsigned one, and a shift
  count is taken modulo 32. An element of a \<open>Uint8Array\<close> is an \<open>8 word\<close>; storing a
  number into one keeps its low eight bits.
\<close>

type_synonym byte = "8 word"

definition js_or :: "int \<Rightarrow> int \<Rightarrow> int" where
  "js_or x y = sint ((word_of_int x :: 32 word) OR word_of_int y)"

definition js_and :: "int \<Rightarrow> int \<Rightarrow> int" where
  "js_and x y = sint ((word_of_int x :: 32 word) AND word_of_int y)"

definition js_shl :: "int \<Rightarrow> int \<Rightarrow> int" where
  "js_shl x n = sint (push_bit (nat (n mod 32)) (word_of_int x :: 32 word))"

definition js_ushr :: "int \<Rightarrow> int \<Rightarrow> int" where
  "js_ushr x n = uint (drop_bit (nat (n mod 32)) (word_of_int x :: 32 word))"

definition ToUint8 :: "int \<Rightarrow> byte" where
  "ToUint8 x = word_of_int x"

subsection \<open>writeUIntBE\<close>

text \<open>
  \<open>writeUIntBE(target, offset, value, byteLength)\<close> stores \<open>byteLength\<close> bytes at
  \<open>target[offset ..]\<close>, the last one first. Every caller passes a buffer allocated with
  exactly the room needed, so the model returns the bytes written, in buffer order;
  \<open>writeLoop i current\<close> is the loop with \<open>i\<close> bytes still to write.
\<close>

fun writeLoop :: "nat \<Rightarrow> int \<Rightarrow> byte list" where
  "writeLoop 0 current = []"
| "writeLoop (Suc i) current = writeLoop i (js_ushr current 8) @ [ToUint8 (js_and current 255)]"

definition writeUIntBE :: "int \<Rightarrow> nat \<Rightarrow> byte list" where
  "writeUIntBE val byteLength = writeLoop byteLength (js_ushr val 0)"

section \<open>Messages, checksum strategies, listeners\<close>

text \<open>
  The class \<open>Message\<close>. Its fields \<open>type\<close> and \<open>data\<close> are \<open>msg_type\<close> and \<open>msg_data\<close>
  here, \<open>data\<close> being also a field of the engine.
\<close>

record Message =
  frameID :: int
  msg_type :: int
  msg_data :: "byte list"
  isResponse :: bool

text \<open>\<open>new Message(type, data)\<close>\<close>

definition Message_new :: "int \<Rightarrow> byte list \<Rightarrow> Message" where
  "Message_new t d = \<lparr>frameID = 0, msg_type = t, msg_data = d, isResponse = False\<rparr>"

definition createResponse :: "Message \<Rightarrow> byte list \<Rightarrow> Message" where
  "createResponse this d = (Message_new (msg_type this) d)\<lparr>frameID := frameID this, isResponse := True\<rparr>"

text \<open>
  The interface \<open>TinyFrameChecksum\<close> of \<open>checksum.js\<close>: a width in bytes and a
  summarising function. The engine only ever uses these two members, so a strategy is a
  parameter of the model.
\<close>

record TinyFrameChecksum =
  cksum_size :: nat
  cksum_sum :: "byte list \<Rightarrow> int"

text \<open>
  Modelled from the spec: the strategy \<open>checksum.xor\<close> that the constructor installs lives
  in \<open>checksum.js\<close>, which is not among the sources. The spec names it an XOR checksum with
  a fixed output width; it is taken here as one byte wide, the exclusive-or of all bytes.
  It serves the constructor and the concrete evaluations only.
\<close>

definition checksum_xor :: TinyFrameChecksum where
  "checksum_xor = \<lparr>cksum_size = 1, cksum_sum = (\<lambda>bytes. uint (foldl (XOR) (0 :: byte) bytes))\<rparr>"

text \<open>
  A listener is an object compared by reference (\<open>===\<close>); \<open>'cb\<close> is the type of these
  references. What a callback does is application code: the model records that it is
  called, and with which message.
\<close>

record 'cb IDListenerEntry =
  entry_id :: int
  callback :: 'cb
  timeout :: "int option"
  maxTimeout :: "int option"

record 'cb TypedListenerEntry =
  entry_type :: int
  typed_callback :: 'cb

datatype TinyFrameState = S_sof | S_id | S_len | S_type | S_headcksum | S_data | S_datacksum

datatype error = Error string

text \<open>
  The calls the engine makes to its collaborators, in order: the two arbitration hooks,
  the write sink with a chunk, a listener with a message.
\<close>

datatype 'cb effect = ClaimTx | ReleaseTx | Write "byte list" | Call 'cb Message

text \<open>
  The field \<open>write\<close> (named \<open>writeSink\<close> below, \<open>write\<close> being a keyword of
  Isabelle): either the constructor's default, which throws, or a transport function
  assigned by the user, whose calls are recorded.
\<close>

datatype write_sink = NoWriteImplementation | Transport

section \<open>The engine\<close>

text \<open>
  The class \<open>TinyFrame\<close>, field by field. Widths, counts and the chunk size are natural
  numbers; \<open>sofByte\<close>, \<open>parserTimeout\<close> and \<open>checksum\<close> are \<open>None\<close> where the code has
  \<open>null\<close>. The last field is not one of the class: it is the record of the calls made so
  far to the hooks, the write sink and the listeners.
\<close>

record 'cb TinyFrame =
  peer :: int
  nextID :: int
  state :: TinyFrameState
  parserTimeoutTicks :: int
  parserTimeout :: "int option"
  sofByte :: "int option"
  chunkSize :: nat
  checksum :: "TinyFrameChecksum option"
  idSize :: nat
  lenSize :: nat
  typeSize :: nat
  partLen :: nat
  currentID :: int
  len :: int
  currentType :: int
  cksum :: int
  data :: "byte list"
  idListeners :: "'cb IDListenerEntry list"
  typeListeners :: "'cb TypedListenerEntry list"
  genericListeners :: "'cb list"
  writeSink :: write_sink
  effects :: "'cb effect list"

text \<open>\<open>new TinyFrame(peer = 1)\<close>: the argument is optional.\<close>

definition TinyFrame_new :: "int option \<Rightarrow> 'cb TinyFrame" where
  "TinyFrame_new peer_arg =
     \<lparr>peer = (case peer_arg of None \<Rightarrow> 1 | Some p \<Rightarrow> p),
      nextID = 0,
      state = S_sof,
      parserTimeoutTicks = 0,
      parserTimeout = None,
      sofByte = None,
      chunkSize = 1024,
      checksum = Some checksum_xor,
      idSize = 4,
      lenSize = 4,
      typeSize = 4,
      partLen = 0,
      currentID = 0,
      len = 0,
      currentType = 0,
      cksum = 0,
      data = [],
      idListeners = [],
      typeListeners = [],
      genericListeners = [],
      writeSink = NoWriteImplementation,
      effects = []\<rparr>"

definition resetParser :: "'cb TinyFrame \<Rightarrow> 'cb TinyFrame" where
  "resetParser this = this\<lparr>state := S_sof, partLen := 0\<rparr>"

definition getNextID :: "'cb TinyFrame \<Rightarrow> int \<times> 'cb TinyFrame" where
  "getNextID this = (nextID this, this\<lparr>nextID := nextID this + 1\<rparr>)"

subsection \<open>Listener registries\<close>

definition addIDListener :: "int \<Rightarrow> 'cb \<Rightarrow> int option \<Rightarrow> 'cb TinyFrame \<Rightarrow> 'cb TinyFrame" where
  "addIDListener i cb t this =
     this\<lparr>idListeners := idListeners this @
       [\<lparr>entry_id = i, callback = cb, timeout = t, maxTimeout = t\<rparr>]\<rparr>"

definition renewIDListener :: "'cb \<Rightarrow> 'cb TinyFrame \<Rightarrow> 'cb TinyFrame" where
  "renewIDListener cb this =
     this\<lparr>idListeners :=
       map (\<lambda>listener. if callback listener = cb
                        then listener\<lparr>timeout := maxTimeout listener\<rparr> else listener)
         (idListeners this)\<rparr>"

definition addTypeListener :: "int \<Rightarrow> 'cb \<Rightarrow> 'cb TinyFrame \<Rightarrow> 'cb TinyFrame" where
  "addTypeListener t cb this =
     this\<lparr>typeListeners := typeListeners this @ [\<lparr>entry_type = t, typed_callback = cb\<rparr>]\<rparr>"

definition addGenericListener :: "'cb \<Rightarrow> 'cb TinyFrame \<Rightarrow> 'cb TinyFrame" where
  "addGenericListener cb this = this\<lparr>genericListeners := genericListeners this @ [cb]\<rparr>"

text \<open>
  \<open>findIndex\<close> returns the first index whose element satisfies the predicate, or \<open>-1\<close>
  (here \<open>None\<close>); \<open>splice(index, 1)\<close> deletes the element at that index.
\<close>

fun findIndex :: "('a \<Rightarrow> bool) \<Rightarrow> 'a list \<Rightarrow> nat option" where
  "findIndex p [] = None"
| "findIndex p (x # xs) =
     (if p x then Some 0 else (case findIndex p xs of None \<Rightarrow> None | Some i \<Rightarrow> Some (Suc i)))"

definition splice1 :: "nat \<Rightarrow> 'a list \<Rightarrow> 'a list" where
  "splice1 i xs = take i xs @ drop (Suc i) xs"

definition removeIDListener :: "'cb \<Rightarrow> 'cb TinyFrame \<Rightarrow> 'cb TinyFrame" where
  "removeIDListener cb this =
     (case findIndex (\<lambda>listener. callback listener = cb) (idListeners this) of
        Some i \<Rightarrow> this\<lparr>idListeners := splice1 i (idListeners this)\<rparr>
      | None \<Rightarrow> this)"

definition removeTypeListener :: "'cb \<Rightarrow> 'cb TinyFrame \<Rightarrow> 'cb TinyFrame" where
  "removeTypeListener cb this =
     (case findIndex (\<lambda>listener. typed_callback listener = cb) (typeListeners this) of
        Some i \<Rightarrow> this\<lparr>typeListeners := splice1 i (typeListeners this)\<rparr>
      | None \<Rightarrow> this)"

definition removeGenericListener :: "'cb \<Rightarrow> 'cb TinyFrame \<Rightarrow> 'cb TinyFrame" where
  "removeGenericListener cb this =
     (case findIndex (\<lambda>listener. listener = cb) (genericListeners this) of
        Some i \<Rightarrow> this\<lparr>genericListeners := splice1 i (genericListeners this)\<rparr>
      | None \<Rightarrow> this)"

subsection \<open>Sending\<close>

text \<open>
  \<open>composeHead\<close> stamps the frame ID into the message and returns the header. The
  checksum is taken over \<open>buffer.subarray(0, headerEnd)\<close>: everything written so far,
  from index 0.
\<close>

definition composeHead :: "Message \<Rightarrow> 'cb TinyFrame \<Rightarrow> byte list \<times> Message \<times> 'cb TinyFrame" where
  "composeHead message this0 =
     (let (id0, this) = (if isResponse message then (frameID message, this0) else getNextID this0);
          id1 = (if peer this = 1 then js_or id0 (js_shl 1 (int (idSize this) * 8 - 1)) else id0);
          message1 = message\<lparr>frameID := id1\<rparr>;
          sofPart = (case sofByte this of Some s \<Rightarrow> [ToUint8 s] | None \<Rightarrow> []);
          header = sofPart
                   @ writeUIntBE id1 (idSize this)
                   @ writeUIntBE (int (length (msg_data message1))) (lenSize this)
                   @ writeUIntBE (msg_type message1) (typeSize this);
          buffer = (case checksum this of
                      Some c \<Rightarrow> header @ writeUIntBE (cksum_sum c header) (cksum_size c)
                    | None \<Rightarrow> header)
      in (buffer, message1, this))"

text \<open>
  The chunking loop of \<open>sendFrame\<close>. With \<open>chunkSize = 0\<close> the cursor never advances and
  the loop does not end, which is the value \<open>None\<close>. A throwing sink ends it with the
  error and the engine as it is at that moment.
\<close>

partial_function (option) writeChunks ::
  "byte list \<Rightarrow> nat \<Rightarrow> 'cb TinyFrame \<Rightarrow> (error \<times> 'cb TinyFrame + 'cb TinyFrame) option" where
  "writeChunks buffer cursor this =
     (if cursor < length buffer then
        (case writeSink this of
           NoWriteImplementation \<Rightarrow> Some (Inl (Error ''No write implementation'', this))
         | Transport \<Rightarrow>
             writeChunks buffer (cursor + chunkSize this)
               (this\<lparr>effects := effects this @ [Write (take (chunkSize this) (drop cursor buffer))]\<rparr>))
      else Some (Inr this))"

declare writeChunks.simps [code]

text \<open>
  The result of a send: \<open>None\<close> if it does not return; \<open>Inl\<close> if the sink threw, with the
  message and the engine as the exception leaves them; \<open>Inr\<close> the message and the engine
  after a normal return.
\<close>

type_synonym 'cb sent = "(error \<times> Message \<times> 'cb TinyFrame + Message \<times> 'cb TinyFrame) option"

definition sendFrame :: "Message \<Rightarrow> 'cb option \<Rightarrow> int option \<Rightarrow> 'cb TinyFrame \<Rightarrow> 'cb sent" where
  "sendFrame message cb t this0 =
     (let this1 = this0\<lparr>effects := effects this0 @ [ClaimTx]\<rparr>;
          (head, message1, this2) = composeHead message this1;
          this3 = (case cb of Some c \<Rightarrow> addIDListener (frameID message1) c t this2 | None \<Rightarrow> this2);
          body = (case checksum this3 of
                    Some c \<Rightarrow>
                      if msg_data message1 \<noteq> []
                      then msg_data message1
                           @ writeUIntBE (cksum_sum c (msg_data message1)) (cksum_size c)
                      else msg_data message1
                  | None \<Rightarrow> msg_data message1);
          buffer = head @ body
      in case writeChunks buffer 0 this3 of
           None \<Rightarrow> None
         | Some (Inl (err, this4)) \<Rightarrow> Some (Inl (err, message1, this4))
         | Some (Inr this4) \<Rightarrow> Some (Inr (message1, this4\<lparr>effects := effects this4 @ [ReleaseTx]\<rparr>)))"

definition send :: "Message \<Rightarrow> 'cb TinyFrame \<Rightarrow> 'cb sent" where
  "send message this = sendFrame message None None this"

definition query :: "Message \<Rightarrow> 'cb \<Rightarrow> int option \<Rightarrow> 'cb TinyFrame \<Rightarrow> 'cb sent" where
  "query message listener t this = sendFrame message (Some listener) t this"

definition respond :: "Message \<Rightarrow> 'cb TinyFrame \<Rightarrow> 'cb sent" where
  "respond message this =
     (case send (message\<lparr>isResponse := True\<rparr>) this of
        None \<Rightarrow> None
      | Some (Inl x) \<Rightarrow> Some (Inl x)
      | Some (Inr (message1, this1)) \<Rightarrow> Some (Inr (message1\<lparr>isResponse := False\<rparr>, this1)))"

subsection \<open>Receiving\<close>

definition beginFrame :: "'cb TinyFrame \<Rightarrow> 'cb TinyFrame" where
  "beginFrame this =
     this\<lparr>state := S_id, partLen := 0, currentID := 0, len := 0, currentType := 0,
          cksum := 0, data := []\<rparr>"

text \<open>
  \<open>handleReceived\<close> builds the message from the parser's fields and calls the listeners
  of the three tables, each table in registration order.
\<close>

definition handleReceived :: "'cb TinyFrame \<Rightarrow> 'cb TinyFrame" where
  "handleReceived this =
     (let message = (Message_new (currentType this) (data this))\<lparr>frameID := currentID this\<rparr>;
          this1 = fold (\<lambda>listener e.
                    if entry_id listener = frameID message
                    then e\<lparr>effects := effects e @ [Call (callback listener) message]\<rparr> else e)
                    (idListeners this) this;
          this2 = fold (\<lambda>listener e.
                    if entry_type listener = msg_type message
                    then e\<lparr>effects := effects e @ [Call (typed_callback listener) message]\<rparr> else e)
                    (typeListeners this1) this1;
          this3 = fold (\<lambda>listener e. e\<lparr>effects := effects e @ [Call listener message]\<rparr>)
                    (genericListeners this2) this2
      in this3)"

text \<open>
  \<open>acceptByte\<close> first applies the parse timeout, then starts a frame at once when no
  start byte is configured, then switches on the state. The branches of the switch are
  written as one function each, named after their \<open>case\<close> label. Its argument is a byte:
  \<open>accept\<close> hands it the elements of a byte buffer one by one.
\<close>

definition checkParserTimeout :: "'cb TinyFrame \<Rightarrow> 'cb TinyFrame" where
  "checkParserTimeout this =
     (case parserTimeout this of
        Some t \<Rightarrow> if parserTimeoutTicks this > t then resetParser this else this
      | None \<Rightarrow> this)"

definition beginWithoutSof :: "'cb TinyFrame \<Rightarrow> 'cb TinyFrame" where
  "beginWithoutSof this =
     (if state this = S_sof \<and> sofByte this = None then beginFrame this else this)"

definition case_sof :: "byte \<Rightarrow> 'cb TinyFrame \<Rightarrow> 'cb TinyFrame" where
  "case_sof byte this =
     (case sofByte this of
        Some s \<Rightarrow>
          if uint byte = s
          then (let b = beginFrame this in b\<lparr>data := data b @ [byte]\<rparr>)
          else this
      | None \<Rightarrow> this)"

definition case_id :: "byte \<Rightarrow> 'cb TinyFrame \<Rightarrow> 'cb TinyFrame" where
  "case_id byte this =
     (let t = this\<lparr>data := data this @ [byte],
                   currentID := js_or (js_shl (currentID this) 8) (uint byte),
                   partLen := partLen this + 1\<rparr>
      in if partLen t = idSize t then t\<lparr>state := S_len, partLen := 0\<rparr> else t)"

definition case_len :: "byte \<Rightarrow> 'cb TinyFrame \<Rightarrow> 'cb TinyFrame" where
  "case_len byte this =
     (let t = this\<lparr>data := data this @ [byte],
                   len := js_or (js_shl (len this) 8) (uint byte),
                   partLen := partLen this + 1\<rparr>
      in if partLen t = lenSize t then t\<lparr>state := S_type, partLen := 0\<rparr> else t)"

definition case_type :: "byte \<Rightarrow> 'cb TinyFrame \<Rightarrow> 'cb TinyFrame" where
  "case_type byte this =
     (let t = this\<lparr>data := data this @ [byte],
                   currentType := js_or (js_shl (currentType this) 8) (uint byte),
                   partLen := partLen this + 1\<rparr>
      in if partLen t = typeSize t
         then t\<lparr>state := (if checksum t \<noteq> None then S_headcksum else S_data), partLen := 0\<rparr>
         else t)"

definition case_headcksum :: "byte \<Rightarrow> 'cb TinyFrame \<Rightarrow> 'cb TinyFrame" where
  "case_headcksum byte this =
     (let t = this\<lparr>cksum := js_ushr (js_or (js_shl (cksum this) 8) (uint byte)) 0,
                   partLen := partLen this + 1\<rparr>
      in if partLen t = (case checksum t of Some c \<Rightarrow> cksum_size c | None \<Rightarrow> 0)
         then (case checksum t of
                 None \<Rightarrow> resetParser t
               | Some c \<Rightarrow>
                   if cksum_sum c (data t) \<noteq> cksum t then resetParser t
                   else (let u = t\<lparr>data := data t @ [byte]\<rparr>
                         in if len u = 0 then resetParser (handleReceived u)
                            else u\<lparr>partLen := 0, data := [], state := S_data\<rparr>))
         else t)"

definition case_data :: "byte \<Rightarrow> 'cb TinyFrame \<Rightarrow> 'cb TinyFrame" where
  "case_data byte this =
     (let t = this\<lparr>data := data this @ [byte], partLen := partLen this + 1\<rparr>
      in if int (partLen t) = len t
         then (case checksum t of
                 None \<Rightarrow> resetParser (handleReceived t)
               | Some c \<Rightarrow> t\<lparr>state := S_datacksum, partLen := 0, cksum := 0\<rparr>)
         else t)"

definition case_datacksum :: "byte \<Rightarrow> 'cb TinyFrame \<Rightarrow> 'cb TinyFrame" where
  "case_datacksum byte this =
     (let t = this\<lparr>cksum := js_ushr (js_or (js_shl (cksum this) 8) (uint byte)) 0,
                   partLen := partLen this + 1\<rparr>
      in if partLen t = (case checksum t of Some c \<Rightarrow> cksum_size c | None \<Rightarrow> 0)
         then resetParser
                (case checksum t of
                   Some c \<Rightarrow> if cksum_sum c (data t) = cksum t then handleReceived t else t
                 | None \<Rightarrow> t)
         else t)"

definition acceptByte :: "byte \<Rightarrow> 'cb TinyFrame \<Rightarrow> 'cb TinyFrame" where
  "acceptByte byte this0 =
     (let this = beginWithoutSof (checkParserTimeout this0)
      in case state this of
           S_sof \<Rightarrow> case_sof byte this
         | S_id \<Rightarrow> case_id byte this
         | S_len \<Rightarrow> case_len byte this
         | S_type \<Rightarrow> case_type byte this
         | S_headcksum \<Rightarrow> case_headcksum byte this
         | S_data \<Rightarrow> case_data byte this
         | S_datacksum \<Rightarrow> case_datacksum byte this)"

definition accept :: "byte list \<Rightarrow> 'cb TinyFrame \<Rightarrow> 'cb TinyFrame" where
  "accept buffer this = fold acceptByte buffer this"

subsection \<open>Ticks\<close>

text \<open>
  \<open>tick\<close> counts one tick, decrements every numeric listener countdown, collects the
  indices of the expired ones and splices them out, adjusting each index by the number
  of elements already removed.
\<close>

fun spliceKeys :: "nat list \<Rightarrow> nat \<Rightarrow> 'a list \<Rightarrow> 'a list" where
  "spliceKeys [] removed xs = xs"
| "spliceKeys (i # removeKeys) removed xs = spliceKeys removeKeys (Suc removed) (splice1 (i - removed) xs)"

definition tick :: "'cb TinyFrame \<Rightarrow> 'cb TinyFrame" where
  "tick this =
     (let ls = map (\<lambda>listener. case timeout listener of
                                  Some t \<Rightarrow> listener\<lparr>timeout := Some (t - 1)\<rparr>
                                | None \<Rightarrow> listener) (idListeners this);
          removeKeys = filter (\<lambda>i. case timeout (ls ! i) of Some t \<Rightarrow> t \<le> 0 | None \<Rightarrow> False)
                         [0 ..< length ls]
      in this\<lparr>parserTimeoutTicks := parserTimeoutTicks this + 1,
              idListeners := spliceKeys removeKeys 0 ls\<rparr>)"

section \<open>Notions used in the statements\<close>

text \<open>One step of the big-endian accumulation \<open>(acc << 8) | byte\<close>, on 32 bits.\<close>

definition acc32 :: "32 word \<Rightarrow> byte \<Rightarrow> 32 word" where
  "acc32 w b = push_bit 8 w OR ucast b"

text \<open>
  A number that the parser reads back unchanged from an \<open>n\<close>-byte big-endian field:
  the accumulated value is a signed 32-bit integer, so with fewer than four bytes it is
  the unsigned value of the field, and from four bytes on a signed one.
\<close>

definition fits :: "nat \<Rightarrow> int \<Rightarrow> bool" where
  "fits n v = (if n < 4 then 0 \<le> v \<and> v < 2 ^ (8 * n) else - (2 ^ 31) \<le> v \<and> v < 2 ^ 31)"

text \<open>The parse timeout fires at the next byte.\<close>

definition timed_out :: "'cb TinyFrame \<Rightarrow> bool" where
  "timed_out this = (case parserTimeout this of Some t \<Rightarrow> parserTimeoutTicks this > t | None \<Rightarrow> False)"

text \<open>The bytes handed to the write sink, in order.\<close>

fun written :: "'cb effect list \<Rightarrow> byte list" where
  "written [] = []"
| "written (Write chunk # es) = chunk @ written es"
| "written (ClaimTx # es) = written es"
| "written (ReleaseTx # es) = written es"
| "written (Call cb m # es) = written es"

text \<open>The listener calls of one dispatch of \<open>message\<close>, for the tables of \<open>this\<close>.\<close>

definition dispatch :: "'cb TinyFrame \<Rightarrow> Message \<Rightarrow> 'cb effect list" where
  "dispatch this message =
     map (\<lambda>l. Call (callback l) message) (filter (\<lambda>l. entry_id l = frameID message) (idListeners this))
     @ map (\<lambda>l. Call (typed_callback l) message) (filter (\<lambda>l. entry_type l = msg_type message) (typeListeners this))
     @ map (\<lambda>l. Call l message) (genericListeners this)"

text \<open>
  The contract of a checksum strategy that the codec relies on: at least one byte wide,
  and every sum an unsigned integer of that width (and of 32 bits, the width of the
  parser's accumulator).
\<close>

definition checksum_contract :: "TinyFrameChecksum \<Rightarrow> bool" where
  "checksum_contract c =
     (0 < cksum_size c \<and>
      (\<forall>bytes. 0 \<le> cksum_sum c bytes \<and> cksum_sum c bytes < 2 ^ (8 * cksum_size c)
                 \<and> cksum_sum c bytes < 2 ^ 32))"

text \<open>
  The parts of a frame as \<open>composeHead\<close> and \<open>sendFrame\<close> lay them out: the ID before the
  peer bit is set (the message's own for a response, the counter otherwise), the ID
  stamped into the message, the start byte, the header up to the type field, a checksum
  field, the payload with its checksum, and the whole frame.
\<close>

definition raw_id :: "Message \<Rightarrow> 'cb TinyFrame \<Rightarrow> int" where
  "raw_id m e = (if isResponse m then frameID m else nextID e)"

definition stamped_id :: "Message \<Rightarrow> 'cb TinyFrame \<Rightarrow> int" where
  "stamped_id m e =
     (if peer e = 1 then js_or (raw_id m e) (js_shl 1 (int (idSize e) * 8 - 1)) else raw_id m e)"

definition sofPart :: "'cb TinyFrame \<Rightarrow> byte list" where
  "sofPart e = (case sofByte e of Some s \<Rightarrow> [ToUint8 s] | None \<Rightarrow> [])"

definition header_fields :: "Message \<Rightarrow> 'cb TinyFrame \<Rightarrow> byte list" where
  "header_fields m e =
     sofPart e @ writeUIntBE (stamped_id m e) (idSize e)
     @ writeUIntBE (int (length (msg_data m))) (lenSize e)
     @ writeUIntBE (msg_type m) (typeSize e)"

definition cksum_field :: "'cb TinyFrame \<Rightarrow> byte list \<Rightarrow> byte list" where
  "cksum_field e bytes =
     (case checksum e of Some c \<Rightarrow> writeUIntBE (cksum_sum c bytes) (cksum_size c) | None \<Rightarrow> [])"

definition body_bytes :: "Message \<Rightarrow> 'cb TinyFrame \<Rightarrow> byte list" where
  "body_bytes m e = msg_data m @ (if msg_data m \<noteq> [] then cksum_field e (msg_data m) else [])"

definition frame_bytes :: "Message \<Rightarrow> 'cb TinyFrame \<Rightarrow> byte list" where
  "frame_bytes m e = header_fields m e @ cksum_field e (header_fields m e) @ body_bytes m e"

text \<open>The engine when \<open>sendFrame\<close> reaches its chunking loop.\<close>

definition after_head :: "Message \<Rightarrow> 'cb option \<Rightarrow> int option \<Rightarrow> 'cb TinyFrame \<Rightarrow> 'cb TinyFrame" where
  "after_head m cb t e =
     (let e1 = e\<lparr>effects := effects e @ [ClaimTx]\<rparr>;
          e2 = (if isResponse m then e1 else e1\<lparr>nextID := nextID e + 1\<rparr>)
      in case cb of Some c \<Rightarrow> addIDListener (stamped_id m e) c t e2 | None \<Rightarrow> e2)"

text \<open>
  A receiver configured like the sender: the field widths, the start byte and the
  checksum strategy are all the parser depends on.
\<close>

definition same_config :: "'cb TinyFrame \<Rightarrow> 'cb TinyFrame \<Rightarrow> bool" where
  "same_config tx rx =
     (idSize rx = idSize tx \<and> lenSize rx = lenSize tx \<and> typeSize rx = typeSize tx
      \<and> sofByte rx = sofByte tx \<and> checksum rx = checksum tx)"

text \<open>\<open>n\<close> calls of \<open>getNextID\<close>.\<close>

definition allocations :: "nat \<Rightarrow> 'cb TinyFrame \<Rightarrow> 'cb TinyFrame" where
  "allocations n this = ((\<lambda>e. snd (getNextID e)) ^^ n) this"

section \<open>Concrete engines\<close>

text \<open>
  The engines of the test suite: a sender whose \<open>write\<close> collects the chunks and a
  receiver with one generic listener, both \<open>new TinyFrame()\<close> or \<open>new TinyFrame(0)\<close>.
  Listener references are numbers here.
\<close>

definition tx_default :: "nat TinyFrame" where
  "tx_default = (TinyFrame_new None)\<lparr>writeSink := Transport\<rparr>"

definition rx_default :: "nat TinyFrame" where
  "rx_default = addGenericListener 0 (TinyFrame_new None)"

definition tx_master :: "nat TinyFrame" where
  "tx_master = (TinyFrame_new (Some 0))\<lparr>writeSink := Transport\<rparr>"

definition rx_master :: "nat TinyFrame" where
  "rx_master = addGenericListener 0 (TinyFrame_new (Some 0))"

text \<open>
  An engine with four ID listeners, two of them sharing the callback \<open>7\<close>, one tick
  after their registration.
\<close>

definition four_listeners :: "nat TinyFrame" where
  "four_listeners =
     tick (addIDListener 3 7 (Some 5) (addIDListener 2 8 (Some 4)
       (addIDListener 1 7 (Some 9) (addIDListener 0 6 None (TinyFrame_new None)))))"

text \<open>The master engines with the start byte 1.\<close>

definition tx_sof :: "nat TinyFrame" where
  "tx_sof = tx_master\<lparr>sofByte := Some 1\<rparr>"

definition rx_sof :: "nat TinyFrame" where
  "rx_sof = rx_master\<lparr>sofByte := Some 1\<rparr>"

text \<open>An engine whose fields all have width 0, with no start byte and no checksum.\<close>

definition zero_width :: "nat TinyFrame" where
  "zero_width =
     (TinyFrame_new (Some 0))\<lparr>idSize := 0, lenSize := 0, typeSize := 0, checksum := None\<rparr>"

text \<open>
  Two master engines with a one-byte ID field: a client that has allocated 256 frame
  IDs (and, for comparison, 255), and a server that answers.
\<close>

definition wrapped_client :: "nat TinyFrame" where
  "wrapped_client = allocations 256 (tx_master\<lparr>idSize := 1\<rparr>)"

definition unwrapped_client :: "nat TinyFrame" where
  "unwrapped_client = allocations 255 (tx_master\<lparr>idSize := 1\<rparr>)"

definition wrapped_server :: "nat TinyFrame" where
  "wrapped_server = rx_master\<lparr>idSize := 1, writeSink := Transport\<rparr>"

text \<open>The bytes \<open>tx_master\<close> writes for \<open>new Message(1, [7])\<close>.\<close>

definition one_frame :: "byte list" where
  "one_frame =
     (case send (Message_new 1 [7]) tx_master of
        Some (Inr (m, tx)) \<Rightarrow> written (effects tx)
      | Some (Inl failure) \<Rightarrow> []
      | None \<Rightarrow> [])"

section \<open>The byte encoding\<close>

lemma js_acc_signed: "js_or (js_shl a 8) (uint b) = sint (acc32 (word_of_int a) b)"
  by (simp add: js_or_def js_shl_def acc32_def)

lemma js_acc_unsigned: "js_ushr (js_or (js_shl a 8) (uint b)) 0 = uint (acc32 (word_of_int a) b)"
  by (simp add: js_or_def js_shl_def js_ushr_def acc32_def)

lemma low_byte: "ToUint8 (js_and (uint (w :: 32 word)) 255) = ucast w"
proof -
  have m: "(255 :: 32 word) = mask 8" by (simp add: mask_eq_decr_exp)
  show ?thesis
    apply (simp add: ToUint8_def js_and_def)
    apply (simp only: m)
    apply (rule bit_word_eqI)
    apply (auto simp add: bit_simps)
    done
qed

lemma ushr8: "js_ushr (uint (w :: 32 word)) 8 = uint (drop_bit 8 w)"
  by (simp add: js_ushr_def)

lemma writeLoop_snoc: "writeLoop (Suc n) (uint (w :: 32 word)) = writeLoop n (uint (drop_bit 8 w)) @ [ucast w]"
  by (simp add: low_byte ushr8)

lemma acc32_step: "acc32 (push_bit (8 * n) a OR take_bit (8 * n) (drop_bit 8 w)) (ucast (w :: 32 word))
   = push_bit (8 * Suc n) a OR take_bit (8 * Suc n) w"
  unfolding acc32_def
  apply (rule bit_word_eqI)
  apply (auto simp add: bit_simps)
  done

lemma foldl_writeLoop: "foldl acc32 a (writeLoop n (uint w)) = push_bit (8 * n) a OR take_bit (8 * n) w"
proof (induction n arbitrary: w)
  case 0
  then show ?case by simp
next
  case (Suc n)
  show ?case
    unfolding writeLoop_snoc
    by (simp only: foldl_append foldl.simps Suc.IH acc32_step)
qed

lemma be32_writeUIntBE: "foldl acc32 0 (writeUIntBE v n) = take_bit (8 * n) (word_of_int v :: 32 word)"
  using foldl_writeLoop [of 0 n "word_of_int v"] by (simp add: writeUIntBE_def js_ushr_def)

lemma uint_take_bit_fits:
  assumes "0 \<le> v" "v < 2 ^ (8 * n)" "v < 2 ^ 32"
  shows "uint (take_bit (8 * n) (word_of_int v :: 32 word)) = v"
proof -
  have "uint (take_bit (8 * n) (word_of_int v :: 32 word)) = take_bit (8 * n) (take_bit 32 v)"
    by (simp add: unsigned_take_bit_eq uint_word_of_int_eq)
  also have "\<dots> = v"
    using assms by (simp add: take_bit_int_eq_self)
  finally show ?thesis .
qed

lemma sint_take_bit_fits:
  assumes "fits n v"
  shows "sint (take_bit (8 * n) (word_of_int v :: 32 word)) = v"
proof (cases "n < 4")
  case True
  from assms True have v: "0 \<le> v" "v < 2 ^ (8 * n)" by (simp_all add: fits_def)
  from True have "(2 :: int) ^ (8 * n) \<le> 2 ^ 24"
    by (intro power_increasing) simp_all
  with v have small: "v < 2 ^ 31" "v < 2 ^ 32" by simp_all
  have "uint (take_bit (8 * n) (word_of_int v :: 32 word)) = v"
    using v small(2) by (rule uint_take_bit_fits)
  then have "sint (take_bit (8 * n) (word_of_int v :: 32 word)) = signed_take_bit 31 v"
    by (simp add: sint_uint)
  also have "\<dots> = v"
    using v small by (simp add: signed_take_bit_int_eq_self)
  finally show ?thesis .
next
  case False
  then have "take_bit (8 * n) (word_of_int v :: 32 word) = word_of_int v"
    by (simp add: take_bit_word_eq_self)
  moreover from assms False have "- (2 ^ 31) \<le> v" "v < 2 ^ 31" by (simp_all add: fits_def)
  ultimately show ?thesis
    by (simp add: sint_sbintrunc' signed_take_bit_int_eq_self)
qed

lemma length_writeLoop: "length (writeLoop n c) = n"
  by (induction n arbitrary: c) auto

section \<open>The sender\<close>

lemma composeHead_eq:
  "composeHead m e =
     (header_fields m e @ cksum_field e (header_fields m e),
      m\<lparr>frameID := stamped_id m e\<rparr>,
      if isResponse m then e else e\<lparr>nextID := nextID e + 1\<rparr>)"
  by (simp add: composeHead_def getNextID_def Let_def header_fields_def cksum_field_def
      stamped_id_def raw_id_def sofPart_def split: option.split)

lemma length_writeUIntBE: "length (writeUIntBE v n) = n"
  by (simp add: writeUIntBE_def length_writeLoop)

lemma allocations_eq: "allocations n e = e\<lparr>nextID := nextID e + int n\<rparr>"
  by (induction n) (simp_all add: allocations_def getNextID_def)

lemma writeChunks_no_sink:
  "writeSink e = NoWriteImplementation \<Longrightarrow> buffer \<noteq> [] \<Longrightarrow>
   writeChunks buffer 0 e = Some (Inl (Error ''No write implementation'', e))"
  by (subst writeChunks.simps) simp

lemma writeChunks_empty: "writeChunks [] 0 e = Some (Inr e)"
  by (subst writeChunks.simps) simp

lemma body_bytes_eq:
  "(case checksum e of
      Some c \<Rightarrow> if msg_data m \<noteq> []
                then msg_data m @ writeUIntBE (cksum_sum c (msg_data m)) (cksum_size c)
                else msg_data m
    | None \<Rightarrow> msg_data m) = body_bytes m e"
  by (simp add: body_bytes_def cksum_field_def split: option.split)

lemma sendFrame_eq:
  "sendFrame m cb t e =
     (case writeChunks (frame_bytes m e) 0 (after_head m cb t e) of
        None \<Rightarrow> None
      | Some (Inl (err, e')) \<Rightarrow> Some (Inl (err, m\<lparr>frameID := stamped_id m e\<rparr>, e'))
      | Some (Inr e') \<Rightarrow> Some (Inr (m\<lparr>frameID := stamped_id m e\<rparr>, e'\<lparr>effects := effects e' @ [ReleaseTx]\<rparr>)))"
proof -
  let ?e1 = "e\<lparr>effects := effects e @ [ClaimTx]\<rparr>"
  have h: "header_fields m ?e1 = header_fields m e" "stamped_id m ?e1 = stamped_id m e"
    "\<And>bs. cksum_field ?e1 bs = cksum_field e bs"
    by (simp_all add: header_fields_def stamped_id_def raw_id_def sofPart_def cksum_field_def)
  have a: "(case cb of
          Some c \<Rightarrow> addIDListener (stamped_id m e) c t (if isResponse m then ?e1 else ?e1\<lparr>nextID := nextID ?e1 + 1\<rparr>)
        | None \<Rightarrow> (if isResponse m then ?e1 else ?e1\<lparr>nextID := nextID ?e1 + 1\<rparr>)) = after_head m cb t e"
    by (simp add: after_head_def Let_def addIDListener_def split: option.split)
  have c: "checksum (after_head m cb t e) = checksum e"
    by (simp add: after_head_def Let_def addIDListener_def split: option.split)
  have b: "(case checksum (after_head m cb t e) of
      Some c \<Rightarrow> if msg_data m \<noteq> []
                then msg_data m @ writeUIntBE (cksum_sum c (msg_data m)) (cksum_size c)
                else msg_data m
    | None \<Rightarrow> msg_data m) = body_bytes m e"
    unfolding c by (rule body_bytes_eq)
  have bb: "body_bytes (m\<lparr>frameID := stamped_id m e\<rparr>) e = body_bytes m e"
    by (simp add: body_bytes_def)
  show ?thesis
    unfolding sendFrame_def Let_def composeHead_eq prod.case h
    by (cases cb; cases "isResponse m";
        simp add: frame_bytes_def after_head_def Let_def addIDListener_def body_bytes_eq bb)
qed


section \<open>Listener registries and dispatch\<close>

lemma fold_calls:
  "fold (\<lambda>l e. if p l then e\<lparr>effects := effects e @ [f l]\<rparr> else e) ls (e :: 'cb TinyFrame)
     = e\<lparr>effects := effects e @ map f (filter p ls)\<rparr>"
  by (induction ls arbitrary: e) simp_all

lemma fold_calls_all:
  "fold (\<lambda>l e. e\<lparr>effects := effects e @ [f l]\<rparr>) ls (e :: 'cb TinyFrame)
     = e\<lparr>effects := effects e @ map f ls\<rparr>"
  by (induction ls arbitrary: e) simp_all

lemma handleReceived_eq:
  "handleReceived e =
     e\<lparr>effects := effects e
        @ dispatch e \<lparr>frameID = currentID e, msg_type = currentType e, msg_data = data e,
                       isResponse = False\<rparr>\<rparr>"
  by (simp add: handleReceived_def Let_def fold_calls fold_calls_all dispatch_def Message_new_def)

text \<open>
  Claim C7. A dispatch calls, in this order: every ID listener whose \<open>id\<close> is the
  message's \<open>frameID\<close>, every type listener whose \<open>type\<close> is the message's type, every
  generic listener. Each table is gone through in registration order and every matching
  entry is called once, with the one message built from the parser's fields; nothing
  else of the engine changes.
\<close>

theorem handleReceived_fan_out:
  "handleReceived e =
     e\<lparr>effects := effects e
        @ map (\<lambda>l. Call (callback l)
                 \<lparr>frameID = currentID e, msg_type = currentType e, msg_data = data e,
                  isResponse = False\<rparr>)
            (filter (\<lambda>l. entry_id l = currentID e) (idListeners e))
        @ map (\<lambda>l. Call (typed_callback l)
                 \<lparr>frameID = currentID e, msg_type = currentType e, msg_data = data e,
                  isResponse = False\<rparr>)
            (filter (\<lambda>l. entry_type l = currentType e) (typeListeners e))
        @ map (\<lambda>l. Call l
                 \<lparr>frameID = currentID e, msg_type = currentType e, msg_data = data e,
                  isResponse = False\<rparr>)
            (genericListeners e)\<rparr>"
proof -
  let ?message = "\<lparr>frameID = currentID e, msg_type = currentType e, msg_data = data e,
                   isResponse = False\<rparr>"
  let ?ids = "map (\<lambda>l. Call (callback l) ?message)
                (filter (\<lambda>l. entry_id l = currentID e) (idListeners e))"
  let ?types = "map (\<lambda>l. Call (typed_callback l) ?message)
                  (filter (\<lambda>l. entry_type l = currentType e) (typeListeners e))"
  let ?generics = "map (\<lambda>l. Call l ?message) (genericListeners e)"
  have built: "(Message_new (currentType e) (data e))\<lparr>frameID := currentID e\<rparr> = ?message"
    by (simp add: Message_new_def)
  define e1 where "e1 = e\<lparr>effects := effects e @ ?ids\<rparr>"
  define e2 where "e2 = e1\<lparr>effects := effects e1 @ ?types\<rparr>"
  have first: "fold (\<lambda>listener e.
                    if entry_id listener = frameID ?message
                    then e\<lparr>effects := effects e @ [Call (callback listener) ?message]\<rparr> else e)
                 (idListeners e) e = e1"
    by (simp add: fold_calls e1_def)
  have second: "fold (\<lambda>listener e.
                    if entry_type listener = msg_type ?message
                    then e\<lparr>effects := effects e @ [Call (typed_callback listener) ?message]\<rparr> else e)
                 (typeListeners e1) e1 = e2"
    by (simp add: fold_calls e1_def e2_def)
  have third: "fold (\<lambda>listener e. e\<lparr>effects := effects e @ [Call listener ?message]\<rparr>)
                 (genericListeners e2) e2 = e2\<lparr>effects := effects e2 @ ?generics\<rparr>"
    by (simp add: fold_calls_all e1_def e2_def)
  have "handleReceived e = e2\<lparr>effects := effects e2 @ ?generics\<rparr>"
    unfolding handleReceived_def Let_def built by (simp only: first second third)
  then show ?thesis
    by (simp add: e1_def e2_def)
qed

section \<open>The parser, field by field\<close>

lemma timed_out_upd [simp]:
  "timed_out (e\<lparr>data := d\<rparr>) = timed_out e"
  "timed_out (e\<lparr>currentID := i\<rparr>) = timed_out e"
  "timed_out (e\<lparr>len := i\<rparr>) = timed_out e"
  "timed_out (e\<lparr>currentType := i\<rparr>) = timed_out e"
  "timed_out (e\<lparr>cksum := i\<rparr>) = timed_out e"
  "timed_out (e\<lparr>partLen := n\<rparr>) = timed_out e"
  "timed_out (e\<lparr>state := st\<rparr>) = timed_out e"
  "timed_out (e\<lparr>effects := fx\<rparr>) = timed_out e"
  by (simp_all add: timed_out_def split: option.split)

lemma no_timeout: "\<not> timed_out e \<Longrightarrow> checkParserTimeout e = e"
  by (simp add: checkParserTimeout_def timed_out_def split: option.splits)

lemma acceptByte_sof_none:
  assumes "state e = S_sof" "sofByte e = None" "\<not> timed_out e"
  shows "acceptByte b e = case_id b (beginFrame e)"
  using assms
  by (simp add: acceptByte_def no_timeout beginWithoutSof_def beginFrame_def)

lemma acceptByte_sof_some:
  assumes "state e = S_sof" "sofByte e = Some s" "\<not> timed_out e"
  shows "acceptByte b e = (if uint b = s then (beginFrame e)\<lparr>data := [b]\<rparr> else e)"
  using assms
  by (simp add: acceptByte_def no_timeout beginWithoutSof_def case_sof_def beginFrame_def)

lemma acceptByte_other:
  assumes "state e \<noteq> S_sof" "\<not> timed_out e"
  shows "acceptByte b e =
    (case state e of
           S_sof \<Rightarrow> case_sof b e
         | S_id \<Rightarrow> case_id b e
         | S_len \<Rightarrow> case_len b e
         | S_type \<Rightarrow> case_type b e
         | S_headcksum \<Rightarrow> case_headcksum b e
         | S_data \<Rightarrow> case_data b e
         | S_datacksum \<Rightarrow> case_datacksum b e)"
  using assms
  by (simp add: acceptByte_def no_timeout beginWithoutSof_def)


lemma case_id_eq:
  "case_id b e =
     (if partLen e + 1 = idSize e
      then e\<lparr>data := data e @ [b], currentID := sint (acc32 (word_of_int (currentID e)) b),
             partLen := 0, state := S_len\<rparr>
      else e\<lparr>data := data e @ [b], currentID := sint (acc32 (word_of_int (currentID e)) b),
             partLen := partLen e + 1\<rparr>)"
  by (simp add: case_id_def Let_def js_acc_signed)

lemma feed_id:
  assumes "state e = S_id" "\<not> timed_out e" "partLen e + length bs = idSize e" "bs \<noteq> []"
  shows "fold acceptByte bs e =
     e\<lparr>data := data e @ bs, currentID := sint (foldl acc32 (word_of_int (currentID e)) bs),
       partLen := 0, state := S_len\<rparr>"
  using assms
proof (induction bs arbitrary: e)
  case Nil
  then show ?case by simp
next
  case (Cons b bs)
  show ?case
  proof (cases "bs = []")
    case True
    with Cons.prems show ?thesis
      by (simp add: acceptByte_other case_id_eq)
  next
    case False
    let ?e1 = "e\<lparr>data := data e @ [b], currentID := sint (acc32 (word_of_int (currentID e)) b),
             partLen := partLen e + 1\<rparr>"
    from False Cons.prems have step: "acceptByte b e = ?e1"
      by (cases bs) (simp_all add: acceptByte_other case_id_eq)
    have "fold acceptByte bs ?e1 =
        ?e1\<lparr>data := data ?e1 @ bs, currentID := sint (foldl acc32 (word_of_int (currentID ?e1)) bs),
          partLen := 0, state := S_len\<rparr>"
      using Cons.prems False by (intro Cons.IH) simp_all
    then show ?thesis
      by (simp add: step)
  qed
qed

lemma case_len_eq:
  "case_len b e =
     (if partLen e + 1 = lenSize e
      then e\<lparr>data := data e @ [b], len := sint (acc32 (word_of_int (len e)) b),
             partLen := 0, state := S_type\<rparr>
      else e\<lparr>data := data e @ [b], len := sint (acc32 (word_of_int (len e)) b),
             partLen := partLen e + 1\<rparr>)"
  by (simp add: case_len_def Let_def js_acc_signed)

lemma feed_len:
  assumes "state e = S_len" "\<not> timed_out e" "partLen e + length bs = lenSize e" "bs \<noteq> []"
  shows "fold acceptByte bs e =
     e\<lparr>data := data e @ bs, len := sint (foldl acc32 (word_of_int (len e)) bs),
       partLen := 0, state := S_type\<rparr>"
  using assms
proof (induction bs arbitrary: e)
  case Nil
  then show ?case by simp
next
  case (Cons b bs)
  show ?case
  proof (cases "bs = []")
    case True
    with Cons.prems show ?thesis
      by (simp add: acceptByte_other case_len_eq)
  next
    case False
    let ?e1 = "e\<lparr>data := data e @ [b], len := sint (acc32 (word_of_int (len e)) b),
             partLen := partLen e + 1\<rparr>"
    from False Cons.prems have step: "acceptByte b e = ?e1"
      by (cases bs) (simp_all add: acceptByte_other case_len_eq)
    have "fold acceptByte bs ?e1 =
        ?e1\<lparr>data := data ?e1 @ bs, len := sint (foldl acc32 (word_of_int (len ?e1)) bs),
          partLen := 0, state := S_type\<rparr>"
      using Cons.prems False by (intro Cons.IH) simp_all
    then show ?thesis
      by (simp add: step)
  qed
qed

lemma case_type_eq:
  "case_type b e =
     (if partLen e + 1 = typeSize e
      then e\<lparr>data := data e @ [b], currentType := sint (acc32 (word_of_int (currentType e)) b),
             partLen := 0, state := (if checksum e \<noteq> None then S_headcksum else S_data)\<rparr>
      else e\<lparr>data := data e @ [b], currentType := sint (acc32 (word_of_int (currentType e)) b),
             partLen := partLen e + 1\<rparr>)"
  by (simp add: case_type_def Let_def js_acc_signed)

lemma feed_type:
  assumes "state e = S_type" "\<not> timed_out e" "partLen e + length bs = typeSize e" "bs \<noteq> []"
  shows "fold acceptByte bs e =
     e\<lparr>data := data e @ bs, currentType := sint (foldl acc32 (word_of_int (currentType e)) bs),
       partLen := 0, state := (if checksum e \<noteq> None then S_headcksum else S_data)\<rparr>"
  using assms
proof (induction bs arbitrary: e)
  case Nil
  then show ?case by simp
next
  case (Cons b bs)
  show ?case
  proof (cases "bs = []")
    case True
    with Cons.prems show ?thesis
      by (simp add: acceptByte_other case_type_eq)
  next
    case False
    let ?e1 = "e\<lparr>data := data e @ [b], currentType := sint (acc32 (word_of_int (currentType e)) b),
             partLen := partLen e + 1\<rparr>"
    from False Cons.prems have step: "acceptByte b e = ?e1"
      by (cases bs) (simp_all add: acceptByte_other case_type_eq)
    have "fold acceptByte bs ?e1 =
        ?e1\<lparr>data := data ?e1 @ bs, currentType := sint (foldl acc32 (word_of_int (currentType ?e1)) bs),
          partLen := 0, state := (if checksum ?e1 \<noteq> None then S_headcksum else S_data)\<rparr>"
      using Cons.prems False by (intro Cons.IH) simp_all
    then show ?thesis
      by (simp add: step)
  qed
qed

lemma feed_data:
  assumes "state e = S_data" "\<not> timed_out e" "len e = int (partLen e + length bs)" "bs \<noteq> []"
    and "checksum e = Some c"
  shows "fold acceptByte bs e =
     e\<lparr>data := data e @ bs, partLen := 0, state := S_datacksum, cksum := 0\<rparr>"
  using assms
proof (induction bs arbitrary: e)
  case Nil
  then show ?case by simp
next
  case (Cons b bs)
  show ?case
  proof (cases "bs = []")
    case True
    with Cons.prems show ?thesis
      by (simp add: acceptByte_other case_data_def Let_def)
  next
    case False
    let ?e1 = "e\<lparr>data := data e @ [b], partLen := partLen e + 1\<rparr>"
    from False Cons.prems have step: "acceptByte b e = ?e1"
      by (cases bs) (simp_all add: acceptByte_other case_data_def Let_def)
    have "fold acceptByte bs ?e1 =
        ?e1\<lparr>data := data ?e1 @ bs, partLen := 0, state := S_datacksum, cksum := 0\<rparr>"
      using Cons.prems False by (intro Cons.IH) simp_all
    then show ?thesis
      by (simp add: step)
  qed
qed

lemma case_headcksum_eq:
  assumes "checksum e = Some c" "cksum e = uint w"
  shows "case_headcksum b e =
     (if partLen e + 1 = cksum_size c
      then (if cksum_sum c (data e) \<noteq> uint (acc32 w b)
            then resetParser (e\<lparr>cksum := uint (acc32 w b), partLen := partLen e + 1\<rparr>)
            else if len e = 0
                 then resetParser (handleReceived
                        (e\<lparr>cksum := uint (acc32 w b), partLen := partLen e + 1,
                           data := data e @ [b]\<rparr>))
                 else e\<lparr>cksum := uint (acc32 w b), partLen := 0, data := [], state := S_data\<rparr>)
      else e\<lparr>cksum := uint (acc32 w b), partLen := partLen e + 1\<rparr>)"
  using assms by (simp add: case_headcksum_def Let_def js_acc_unsigned)

lemma case_datacksum_eq:
  assumes "checksum e = Some c" "cksum e = uint w"
  shows "case_datacksum b e =
     (if partLen e + 1 = cksum_size c
      then resetParser
             (if cksum_sum c (data e) = uint (acc32 w b)
              then handleReceived (e\<lparr>cksum := uint (acc32 w b), partLen := partLen e + 1\<rparr>)
              else e\<lparr>cksum := uint (acc32 w b), partLen := partLen e + 1\<rparr>)
      else e\<lparr>cksum := uint (acc32 w b), partLen := partLen e + 1\<rparr>)"
  using assms by (simp add: case_datacksum_def Let_def js_acc_unsigned)

lemma feed_cksum:
  assumes "state e = S_headcksum \<or> state e = S_datacksum" "\<not> timed_out e"
    and "checksum e = Some c" "cksum e = uint w"
    and "partLen e + length bs < cksum_size c"
  shows "fold acceptByte bs e =
     e\<lparr>cksum := uint (foldl acc32 w bs), partLen := partLen e + length bs\<rparr>"
  using assms
proof (induction bs arbitrary: e w)
  case Nil
  then show ?case by simp
next
  case (Cons b bs)
  let ?e1 = "e\<lparr>cksum := uint (acc32 w b), partLen := partLen e + 1\<rparr>"
  from Cons.prems have step: "acceptByte b e = ?e1"
    by (auto simp add: acceptByte_other case_headcksum_eq case_datacksum_eq)
  have "fold acceptByte bs ?e1 =
      ?e1\<lparr>cksum := uint (foldl acc32 (acc32 w b) bs), partLen := partLen ?e1 + length bs\<rparr>"
    using Cons.prems by (intro Cons.IH) auto
  then show ?case
    by (simp add: step)
qed


lemma fold_sof_id:
  assumes "state r = S_sof" "\<not> timed_out r" "ids \<noteq> []"
    and "case sofByte r of Some s \<Rightarrow> (\<exists>sb. sofp = [sb] \<and> uint sb = s) | None \<Rightarrow> sofp = []"
  shows "fold acceptByte (sofp @ ids) r = fold acceptByte ids ((beginFrame r)\<lparr>data := sofp\<rparr>)"
proof (cases "sofByte r")
  case None
  with assms have sofp: "sofp = []" by simp
  obtain b bs where ids: "ids = b # bs" using assms(3) by (cases ids) auto
  have b: "(beginFrame r)\<lparr>data := []\<rparr> = beginFrame r"
    by (simp add: beginFrame_def)
  have "acceptByte b r = case_id b (beginFrame r)"
    using assms None by (simp add: acceptByte_sof_none)
  also have "\<dots> = acceptByte b (beginFrame r)"
    using assms by (simp add: acceptByte_other beginFrame_def)
  finally show ?thesis
    by (simp add: sofp ids b)
next
  case (Some s)
  with assms obtain sb where sofp: "sofp = [sb]" "uint sb = s" by auto
  have "acceptByte sb r = (beginFrame r)\<lparr>data := [sb]\<rparr>"
    using assms Some sofp by (simp add: acceptByte_sof_some)
  then show ?thesis
    by (simp add: sofp)
qed

lemma parse_header:
  assumes rx: "state r = S_sof" "\<not> timed_out r"
    and ck: "checksum r = Some c"
    and sizes: "0 < idSize r" "0 < lenSize r" "0 < typeSize r"
    and sof: "case sofByte r of Some s \<Rightarrow> (\<exists>sb. sofp = [sb] \<and> uint sb = s) | None \<Rightarrow> sofp = []"
    and lens: "length ids = idSize r" "length lens = lenSize r" "length types = typeSize r"
  shows "fold acceptByte (sofp @ ids @ lens @ types) r =
     r\<lparr>state := S_headcksum, partLen := 0,
       currentID := sint (foldl acc32 0 ids),
       len := sint (foldl acc32 0 lens),
       currentType := sint (foldl acc32 0 types),
       cksum := 0,
       data := sofp @ ids @ lens @ types\<rparr>"
proof -
  from lens sizes have ne: "ids \<noteq> []" "lens \<noteq> []" "types \<noteq> []"
    by auto
  define e0 where "e0 = (beginFrame r)\<lparr>data := sofp\<rparr>"
  define e1 where "e1 = e0\<lparr>data := data e0 @ ids, currentID := sint (foldl acc32 (word_of_int (currentID e0)) ids),
       partLen := 0, state := S_len\<rparr>"
  define e2 where "e2 = e1\<lparr>data := data e1 @ lens, len := sint (foldl acc32 (word_of_int (len e1)) lens),
       partLen := 0, state := S_type\<rparr>"
  define e3 where "e3 = e2\<lparr>data := data e2 @ types, currentType := sint (foldl acc32 (word_of_int (currentType e2)) types),
       partLen := 0, state := (if checksum e2 \<noteq> None then S_headcksum else S_data)\<rparr>"
  have s0: "fold acceptByte (sofp @ ids) r = fold acceptByte ids e0"
    unfolding e0_def using rx ne(1) sof by (rule fold_sof_id)
  have p0: "state e0 = S_id" "\<not> timed_out e0" "partLen e0 = 0" "idSize e0 = idSize r"
    using rx by (simp_all add: e0_def beginFrame_def)
  have s1: "fold acceptByte ids e0 = e1"
    unfolding e1_def using p0 lens ne by (intro feed_id) simp_all
  have p1: "state e1 = S_len" "\<not> timed_out e1" "partLen e1 = 0" "lenSize e1 = lenSize r"
    using p0 by (simp_all add: e1_def e0_def beginFrame_def)
  have s2: "fold acceptByte lens e1 = e2"
    unfolding e2_def using p1 lens ne by (intro feed_len) simp_all
  have p2: "state e2 = S_type" "\<not> timed_out e2" "partLen e2 = 0" "typeSize e2 = typeSize r" "checksum e2 = Some c"
    using p1 ck by (simp_all add: e2_def e1_def e0_def beginFrame_def)
  have s3: "fold acceptByte types e2 = e3"
    unfolding e3_def using p2 lens ne by (intro feed_type) simp_all
  have "fold acceptByte (sofp @ ids @ lens @ types) r
      = fold acceptByte types (fold acceptByte lens (fold acceptByte (sofp @ ids) r))"
    by simp
  also have "\<dots> = e3"
    by (simp only: s0 s1 s2 s3)
  also have "\<dots> = r\<lparr>state := S_headcksum, partLen := 0,
       currentID := sint (foldl acc32 0 ids),
       len := sint (foldl acc32 0 lens),
       currentType := sint (foldl acc32 0 types),
       cksum := 0,
       data := sofp @ ids @ lens @ types\<rparr>"
    using ck by (simp add: e3_def e2_def e1_def e0_def beginFrame_def)
  finally show ?thesis .
qed

lemma check_header:
  assumes "state e = S_headcksum" "\<not> timed_out e" "checksum e = Some c"
    and "cksum e = 0" "partLen e = 0" "0 < cksum_size c" "length hck = cksum_size c"
  shows "fold acceptByte hck e =
     (if cksum_sum c (data e) \<noteq> uint (foldl acc32 0 hck)
      then e\<lparr>cksum := uint (foldl acc32 0 hck), partLen := 0, state := S_sof\<rparr>
      else if len e = 0
           then resetParser (handleReceived
                  (e\<lparr>cksum := uint (foldl acc32 0 hck), partLen := cksum_size c,
                     data := data e @ [last hck]\<rparr>))
           else e\<lparr>cksum := uint (foldl acc32 0 hck), partLen := 0, data := [], state := S_data\<rparr>)"
proof -
  from assms obtain hb hl where hck: "hck = hb @ [hl]"
    by (cases hck rule: rev_cases) auto
  with assms have hb: "length hb < cksum_size c" "Suc (length hb) = cksum_size c"
    by auto
  define e4 where "e4 = e\<lparr>cksum := uint (foldl acc32 0 hb), partLen := partLen e + length hb\<rparr>"
  have c0: "cksum e = uint (0 :: 32 word)" using assms by simp
  have s4: "fold acceptByte hb e = e4"
    unfolding e4_def using assms(1-3) c0 hb(1) assms(5) by (intro feed_cksum) simp_all
  have p4: "state e4 = S_headcksum" "\<not> timed_out e4" "partLen e4 + 1 = cksum_size c"
    "checksum e4 = Some c" "cksum e4 = uint (foldl acc32 0 hb)"
    using assms hb(2) by (simp_all add: e4_def)
  have ch: "case_headcksum hl e4 =
     (if cksum_sum c (data e4) \<noteq> uint (acc32 (foldl acc32 0 hb) hl)
      then resetParser (e4\<lparr>cksum := uint (acc32 (foldl acc32 0 hb) hl), partLen := partLen e4 + 1\<rparr>)
      else if len e4 = 0
           then resetParser (handleReceived
                  (e4\<lparr>cksum := uint (acc32 (foldl acc32 0 hb) hl), partLen := partLen e4 + 1,
                      data := data e4 @ [hl]\<rparr>))
           else e4\<lparr>cksum := uint (acc32 (foldl acc32 0 hb) hl), partLen := 0, data := [],
                   state := S_data\<rparr>)"
    using p4(3) by (simp add: case_headcksum_eq [OF p4(4,5)])
  have "fold acceptByte hck e = acceptByte hl e4"
    by (simp add: hck s4)
  also have "\<dots> = case_headcksum hl e4"
    using p4 by (simp add: acceptByte_other)
  finally have "fold acceptByte hck e = case_headcksum hl e4" .
  then show ?thesis
    using hb(2) unfolding ch
    by (simp add: hck e4_def resetParser_def assms(5))
qed


lemma check_payload:
  assumes "state e = S_datacksum" "\<not> timed_out e" "checksum e = Some c"
    and "cksum e = 0" "partLen e = 0" "0 < cksum_size c" "length dck = cksum_size c"
  shows "fold acceptByte dck e =
     (if cksum_sum c (data e) = uint (foldl acc32 0 dck)
      then resetParser (handleReceived
             (e\<lparr>cksum := uint (foldl acc32 0 dck), partLen := cksum_size c\<rparr>))
      else e\<lparr>cksum := uint (foldl acc32 0 dck), partLen := 0, state := S_sof\<rparr>)"
proof -
  from assms obtain db dl where dck: "dck = db @ [dl]"
    by (cases dck rule: rev_cases) auto
  with assms have db: "length db < cksum_size c" "Suc (length db) = cksum_size c"
    by auto
  define e7 where "e7 = e\<lparr>cksum := uint (foldl acc32 0 db), partLen := partLen e + length db\<rparr>"
  have c0: "cksum e = uint (0 :: 32 word)" using assms by simp
  have s7: "fold acceptByte db e = e7"
    unfolding e7_def using assms(1-3) c0 db(1) assms(5) by (intro feed_cksum) simp_all
  have p7: "state e7 = S_datacksum" "\<not> timed_out e7" "partLen e7 + 1 = cksum_size c"
    "checksum e7 = Some c" "cksum e7 = uint (foldl acc32 0 db)"
    using assms db(2) by (simp_all add: e7_def)
  have ch: "case_datacksum dl e7 =
     resetParser
       (if cksum_sum c (data e7) = uint (acc32 (foldl acc32 0 db) dl)
        then handleReceived (e7\<lparr>cksum := uint (acc32 (foldl acc32 0 db) dl), partLen := partLen e7 + 1\<rparr>)
        else e7\<lparr>cksum := uint (acc32 (foldl acc32 0 db) dl), partLen := partLen e7 + 1\<rparr>)"
    using p7(3) by (simp add: case_datacksum_eq [OF p7(4,5)])
  have "fold acceptByte dck e = acceptByte dl e7"
    by (simp add: dck s7)
  also have "\<dots> = case_datacksum dl e7"
    using p7 by (simp add: acceptByte_other)
  finally have "fold acceptByte dck e = case_datacksum dl e7" .
  then show ?thesis
    using db(2) unfolding ch
    by (simp add: dck e7_def resetParser_def assms(5))
qed

lemma parse_frame:
  assumes rx: "state r = S_sof" "\<not> timed_out r"
    and ck: "checksum r = Some c" "0 < cksum_size c"
    and sizes: "0 < idSize r" "0 < lenSize r" "0 < typeSize r"
    and sof: "case sofByte r of Some s \<Rightarrow> (\<exists>sb. sofp = [sb] \<and> uint sb = s) | None \<Rightarrow> sofp = []"
    and lens: "length ids = idSize r" "length lens = lenSize r" "length types = typeSize r"
      "length hck = cksum_size c" "length dck = cksum_size c"
    and len: "sint (foldl acc32 0 lens) = int (length payload)" "payload \<noteq> []"
    and hsum: "cksum_sum c (sofp @ ids @ lens @ types) = uint (foldl acc32 0 hck)"
    and dsum: "cksum_sum c payload = uint (foldl acc32 0 dck)"
  shows "fold acceptByte (sofp @ ids @ lens @ types @ hck @ payload @ dck) r =
     r\<lparr>state := S_sof, partLen := 0,
       currentID := sint (foldl acc32 0 ids),
       len := int (length payload),
       currentType := sint (foldl acc32 0 types),
       cksum := uint (foldl acc32 0 dck),
       data := payload,
       effects := effects r @ dispatch r
         \<lparr>frameID = sint (foldl acc32 0 ids), msg_type = sint (foldl acc32 0 types),
          msg_data = payload, isResponse = False\<rparr>\<rparr>"
proof -
  define e3 where "e3 = r\<lparr>state := S_headcksum, partLen := 0,
       currentID := sint (foldl acc32 0 ids),
       len := sint (foldl acc32 0 lens),
       currentType := sint (foldl acc32 0 types),
       cksum := 0,
       data := sofp @ ids @ lens @ types\<rparr>"
  define e5 where "e5 = e3\<lparr>cksum := uint (foldl acc32 0 hck), partLen := 0, data := [], state := S_data\<rparr>"
  define e6 where "e6 = e5\<lparr>data := data e5 @ payload, partLen := 0, state := S_datacksum, cksum := 0\<rparr>"
  have s3: "fold acceptByte (sofp @ ids @ lens @ types) r = e3"
    unfolding e3_def using rx ck(1) sizes sof lens(1-3) by (rule parse_header)
  have p3: "state e3 = S_headcksum" "\<not> timed_out e3" "checksum e3 = Some c" "cksum e3 = 0"
    "partLen e3 = 0"
    using rx ck by (simp_all add: e3_def)
  have "fold acceptByte hck e3 =
     (if cksum_sum c (data e3) \<noteq> uint (foldl acc32 0 hck)
      then e3\<lparr>cksum := uint (foldl acc32 0 hck), partLen := 0, state := S_sof\<rparr>
      else if len e3 = 0
           then resetParser (handleReceived
                  (e3\<lparr>cksum := uint (foldl acc32 0 hck), partLen := cksum_size c,
                     data := data e3 @ [last hck]\<rparr>))
           else e3\<lparr>cksum := uint (foldl acc32 0 hck), partLen := 0, data := [], state := S_data\<rparr>)"
    using p3 ck(2) lens(4) by (rule check_header)
  then have s5: "fold acceptByte hck e3 = e5"
    using hsum len by (simp add: e5_def e3_def)
  have p5: "state e5 = S_data" "\<not> timed_out e5" "len e5 = int (partLen e5 + length payload)"
    "checksum e5 = Some c"
    using p3 len by (simp_all add: e5_def e3_def)
  have s6: "fold acceptByte payload e5 = e6"
    unfolding e6_def using p5(1-3) len(2) p5(4) by (rule feed_data)
  have p6: "state e6 = S_datacksum" "\<not> timed_out e6" "checksum e6 = Some c" "cksum e6 = 0"
    "partLen e6 = 0"
    using p5 by (simp_all add: e6_def)
  have "fold acceptByte dck e6 =
     (if cksum_sum c (data e6) = uint (foldl acc32 0 dck)
      then resetParser (handleReceived
             (e6\<lparr>cksum := uint (foldl acc32 0 dck), partLen := cksum_size c\<rparr>))
      else e6\<lparr>cksum := uint (foldl acc32 0 dck), partLen := 0, state := S_sof\<rparr>)"
    using p6 ck(2) lens(5) by (rule check_payload)
  then have s7: "fold acceptByte dck e6 =
      resetParser (handleReceived (e6\<lparr>cksum := uint (foldl acc32 0 dck), partLen := cksum_size c\<rparr>))"
    using dsum by (simp add: e6_def e5_def)
  have "fold acceptByte (sofp @ ids @ lens @ types @ hck @ payload @ dck) r
      = fold acceptByte dck (fold acceptByte payload (fold acceptByte hck
          (fold acceptByte (sofp @ ids @ lens @ types) r)))"
    by simp
  also have "\<dots> = resetParser (handleReceived (e6\<lparr>cksum := uint (foldl acc32 0 dck), partLen := cksum_size c\<rparr>))"
    by (simp only: s3 s5 s6 s7)
  also have "\<dots> = r\<lparr>state := S_sof, partLen := 0,
       currentID := sint (foldl acc32 0 ids),
       len := int (length payload),
       currentType := sint (foldl acc32 0 types),
       cksum := uint (foldl acc32 0 dck),
       data := payload,
       effects := effects r @ dispatch r
         \<lparr>frameID = sint (foldl acc32 0 ids), msg_type = sint (foldl acc32 0 types),
          msg_data = payload, isResponse = False\<rparr>\<rparr>"
    using len
    by (simp add: handleReceived_eq resetParser_def dispatch_def e6_def e5_def e3_def)
  finally show ?thesis .
qed

section \<open>Sending through a transport\<close>

lemma written_append: "written (xs @ ys) = written xs @ written ys"
  by (induction xs rule: written.induct) simp_all

lemma written_Write: "written (map Write chunks) = concat chunks"
  by (induction chunks) simp_all

lemma writeChunks_transport:
  assumes "writeSink e = Transport" "0 < chunkSize e"
  shows "\<exists>chunks. writeChunks buffer cursor e = Some (Inr (e\<lparr>effects := effects e @ map Write chunks\<rparr>))
           \<and> concat chunks = drop cursor buffer"
  using assms
proof (induction "length buffer - cursor" arbitrary: cursor e rule: less_induct)
  case less
  show ?case
  proof (cases "cursor < length buffer")
    case False
    then have "writeChunks buffer cursor e = Some (Inr e)"
      by (subst writeChunks.simps) simp
    with False show ?thesis
      by (intro exI [of _ "[]"]) simp
  next
    case True
    let ?chunk = "take (chunkSize e) (drop cursor buffer)"
    let ?e1 = "e\<lparr>effects := effects e @ [Write ?chunk]\<rparr>"
    have step: "writeChunks buffer cursor e = writeChunks buffer (cursor + chunkSize e) ?e1"
      using True less.prems by (subst writeChunks.simps) simp
    have "length buffer - (cursor + chunkSize e) < length buffer - cursor"
      using True less.prems by simp
    moreover have "writeSink ?e1 = Transport" "0 < chunkSize ?e1"
      using less.prems by simp_all
    ultimately obtain chunks where
      rest: "writeChunks buffer (cursor + chunkSize e) ?e1
               = Some (Inr (?e1\<lparr>effects := effects ?e1 @ map Write chunks\<rparr>))"
      and cc: "concat chunks = drop (cursor + chunkSize ?e1) buffer"
      using less.hyps [of "cursor + chunkSize e" ?e1] by auto
    have "concat (?chunk # chunks) = drop cursor buffer"
      using cc by (simp add: add.commute [of cursor] flip: drop_drop)
    moreover have "writeChunks buffer cursor e
        = Some (Inr (e\<lparr>effects := effects e @ map Write (?chunk # chunks)\<rparr>))"
      by (simp add: step rest)
    ultimately show ?thesis by blast
  qed
qed

lemma sendFrame_transport:
  assumes "writeSink e = Transport" "0 < chunkSize e"
  shows "\<exists>e'. sendFrame m cb t e = Some (Inr (m\<lparr>frameID := stamped_id m e\<rparr>, e'))
           \<and> written (effects e') = written (effects e) @ frame_bytes m e"
proof -
  have "writeSink (after_head m cb t e) = Transport" "0 < chunkSize (after_head m cb t e)"
    using assms by (simp_all add: after_head_def Let_def addIDListener_def split: option.split)
  then obtain chunks where
    w: "writeChunks (frame_bytes m e) 0 (after_head m cb t e)
          = Some (Inr ((after_head m cb t e)\<lparr>effects := effects (after_head m cb t e) @ map Write chunks\<rparr>))"
    and cc: "concat chunks = drop 0 (frame_bytes m e)"
    using writeChunks_transport [of "after_head m cb t e" "frame_bytes m e" 0] by auto
  have fx: "effects (after_head m cb t e) = effects e @ [ClaimTx]"
    by (simp add: after_head_def Let_def addIDListener_def split: option.split)
  show ?thesis
    using cc by (simp add: sendFrame_eq w fx written_append written_Write)
qed

lemma fold_accept_concat: "fold accept chunks e = fold acceptByte (concat chunks) e"
  by (induction chunks arbitrary: e) (simp_all add: accept_def)

section \<open>What the parser reads back\<close>

lemma take_bit_peer_bit:
  assumes "0 < n"
  shows "take_bit (8 * n) (push_bit (8 * n - 1) 1 :: 32 word) = push_bit (8 * n - 1) 1"
  using assms by (intro bit_word_eqI) (auto simp add: bit_simps)

lemma take_bit_fits_word:
  assumes "fits n v"
  shows "take_bit (8 * n) (word_of_int v :: 32 word) = word_of_int v"
proof -
  have "sint (take_bit (8 * n) (word_of_int v :: 32 word)) = v"
    using assms by (rule sint_take_bit_fits)
  then have "word_of_int (sint (take_bit (8 * n) (word_of_int v :: 32 word))) = (word_of_int v :: 32 word)"
    by simp
  then show ?thesis by simp
qed

lemma received_stamped:
  assumes "0 < idSize e" "fits (idSize e) (raw_id m e)"
  shows "sint (take_bit (8 * idSize e) (word_of_int (stamped_id m e) :: 32 word)) = stamped_id m e"
proof (cases "peer e = 1")
  case False
  with assms show ?thesis
    by (simp add: stamped_id_def sint_take_bit_fits)
next
  case True
  let ?n = "idSize e"
  let ?W = "(word_of_int (raw_id m e) :: 32 word) OR push_bit (8 * ?n - 1) 1"
  have shift: "nat ((int ?n * 8 - 1) mod 32) = (8 * ?n - 1) mod 32"
    using assms(1) by (simp add: nat_mod_distrib nat_diff_distrib nat_mult_distrib mult.commute)
  show ?thesis
  proof (cases "?n < 4")
    case small: True
    then have "(8 * ?n - 1) mod 32 = 8 * ?n - 1" by simp
    with True shift have st: "stamped_id m e = sint ?W"
      by (simp add: stamped_id_def js_or_def js_shl_def)
    have "take_bit (8 * ?n) ?W
        = take_bit (8 * ?n) (word_of_int (raw_id m e) :: 32 word)
          OR take_bit (8 * ?n) (push_bit (8 * ?n - 1) 1)"
      by (rule take_bit_or)
    also have "\<dots> = ?W"
      using assms by (simp only: take_bit_fits_word take_bit_peer_bit)
    finally have "take_bit (8 * ?n) ?W = ?W" .
    then show ?thesis
      by (simp add: st)
  next
    case False
    then have "take_bit (8 * ?n) (word_of_int (stamped_id m e) :: 32 word) = word_of_int (stamped_id m e)"
      by (simp add: take_bit_word_eq_self)
    then show ?thesis
      using True by (simp add: stamped_id_def js_or_def)
  qed
qed

lemma uint_ToUint8: "0 \<le> s \<Longrightarrow> s < 256 \<Longrightarrow> uint (ToUint8 s) = s"
  by (simp add: ToUint8_def uint_word_of_int_eq take_bit_int_eq_self)

lemma cksum_received:
  assumes "checksum_contract c"
  shows "uint (foldl acc32 0 (writeUIntBE (cksum_sum c bytes) (cksum_size c))) = cksum_sum c bytes"
  using assms by (simp add: be32_writeUIntBE checksum_contract_def uint_take_bit_fits)

lemma parse_sent_frame:
  assumes cfg: "same_config tx rx"
    and sizes: "0 < idSize tx" "0 < lenSize tx" "0 < typeSize tx"
    and sof: "case sofByte tx of Some s \<Rightarrow> 0 \<le> s \<and> s < 256 | None \<Rightarrow> True"
    and ck: "checksum tx = Some c" "checksum_contract c"
    and rx: "state rx = S_sof" "\<not> timed_out rx"
    and msg: "msg_data m \<noteq> []" "fits (lenSize tx) (int (length (msg_data m)))"
      "fits (typeSize tx) (msg_type m)" "fits (idSize tx) (raw_id m tx)"
  shows "fold acceptByte (frame_bytes m tx) rx =
     rx\<lparr>state := S_sof, partLen := 0,
        currentID := stamped_id m tx,
        len := int (length (msg_data m)),
        currentType := msg_type m,
        cksum := cksum_sum c (msg_data m),
        data := msg_data m,
        effects := effects rx @ dispatch rx
          \<lparr>frameID = stamped_id m tx, msg_type = msg_type m,
           msg_data = msg_data m, isResponse = False\<rparr>\<rparr>"
proof -
  let ?ids = "writeUIntBE (stamped_id m tx) (idSize tx)"
  let ?lens = "writeUIntBE (int (length (msg_data m))) (lenSize tx)"
  let ?types = "writeUIntBE (msg_type m) (typeSize tx)"
  let ?hdr = "sofPart tx @ ?ids @ ?lens @ ?types"
  let ?hck = "writeUIntBE (cksum_sum c ?hdr) (cksum_size c)"
  let ?dck = "writeUIntBE (cksum_sum c (msg_data m)) (cksum_size c)"
  have frame: "frame_bytes m tx = sofPart tx @ ?ids @ ?lens @ ?types @ ?hck @ msg_data m @ ?dck"
    using ck msg by (simp add: frame_bytes_def header_fields_def cksum_field_def body_bytes_def)
  have rid: "sint (foldl acc32 0 ?ids) = stamped_id m tx"
    using sizes msg by (simp add: be32_writeUIntBE received_stamped)
  have rlen: "sint (foldl acc32 0 ?lens) = int (length (msg_data m))"
    using sint_take_bit_fits [OF msg(2)] by (simp only: be32_writeUIntBE)
  have rtype: "sint (foldl acc32 0 ?types) = msg_type m"
    using msg by (simp add: be32_writeUIntBE sint_take_bit_fits)
  have sofp: "case sofByte rx of Some s \<Rightarrow> (\<exists>sb. sofPart tx = [sb] \<and> uint sb = s) | None \<Rightarrow> sofPart tx = []"
    using cfg sof by (simp add: same_config_def sofPart_def uint_ToUint8 split: option.splits)
  have "fold acceptByte (sofPart tx @ ?ids @ ?lens @ ?types @ ?hck @ msg_data m @ ?dck) rx =
     rx\<lparr>state := S_sof, partLen := 0,
       currentID := sint (foldl acc32 0 ?ids),
       len := int (length (msg_data m)),
       currentType := sint (foldl acc32 0 ?types),
       cksum := uint (foldl acc32 0 ?dck),
       data := msg_data m,
       effects := effects rx @ dispatch rx
         \<lparr>frameID = sint (foldl acc32 0 ?ids), msg_type = sint (foldl acc32 0 ?types),
          msg_data = msg_data m, isResponse = False\<rparr>\<rparr>"
  proof (rule parse_frame [where c = c])
    show "state rx = S_sof" "\<not> timed_out rx" by (fact rx)+
    show "checksum rx = Some c" using cfg ck by (simp add: same_config_def)
    show "0 < cksum_size c" using ck by (simp add: checksum_contract_def)
    show "0 < idSize rx" "0 < lenSize rx" "0 < typeSize rx"
      using cfg sizes by (simp_all add: same_config_def)
    show "case sofByte rx of Some s \<Rightarrow> (\<exists>sb. sofPart tx = [sb] \<and> uint sb = s) | None \<Rightarrow> sofPart tx = []"
      by (fact sofp)
    show "length ?ids = idSize rx" "length ?lens = lenSize rx" "length ?types = typeSize rx"
      using cfg by (simp_all add: same_config_def length_writeUIntBE)
    show "length ?hck = cksum_size c" "length ?dck = cksum_size c"
      by (simp_all add: length_writeUIntBE)
    show "sint (foldl acc32 0 ?lens) = int (length (msg_data m))" by (fact rlen)
    show "msg_data m \<noteq> []" by (fact msg)
    show "cksum_sum c (sofPart tx @ ?ids @ ?lens @ ?types) = uint (foldl acc32 0 ?hck)"
      using ck by (simp add: cksum_received)
    show "cksum_sum c (msg_data m) = uint (foldl acc32 0 ?dck)"
      using ck by (simp add: cksum_received)
  qed
  then show ?thesis
    using ck by (simp only: frame rid rtype cksum_received)
qed

section \<open>Round trip\<close>

lemma checksum_xor_contract: "checksum_contract checksum_xor"
proof -
  have b: "uint (w :: byte) < 256" for w
    using uint_bounded [of w] by simp
  have "uint (w :: byte) < 4294967296" for w
    using b [of w] by linarith
  with b show ?thesis
    by (simp add: checksum_contract_def checksum_xor_def)
qed

text \<open>
  Claim C1, as amended. Let the sender have a checksum strategy that keeps its contract,
  field widths of at least one byte, a start byte (if any) between 0 and 255, a write
  sink and a positive chunk size; let the message have a non-empty payload whose length
  fits the length field, a type that fits the type field and an ID before stamping that
  fits the ID field. Then the send returns, with the stamped ID in the message, and
  whatever the chunk boundaries at which the written bytes reach a receiver of the same
  configuration that waits in state \<open>sof\<close> with its parse timeout not expired, the
  receiver makes the listener calls of exactly one dispatch, for a message with the type
  and payload sent and the stamped ID, and is back in state \<open>sof\<close>.
\<close>

theorem send_then_accept_roundtrip:
  assumes cfg: "same_config tx rx"
    and sizes: "0 < idSize tx" "0 < lenSize tx" "0 < typeSize tx"
    and sof: "case sofByte tx of Some s \<Rightarrow> 0 \<le> s \<and> s < 256 | None \<Rightarrow> True"
    and ck: "checksum tx = Some c" "checksum_contract c"
    and sink: "writeSink tx = Transport" "0 < chunkSize tx"
    and rx: "state rx = S_sof" "\<not> timed_out rx"
    and msg: "msg_data m \<noteq> []" "fits (lenSize tx) (int (length (msg_data m)))"
      "fits (typeSize tx) (msg_type m)" "fits (idSize tx) (raw_id m tx)"
  shows "\<exists>m' tx' wire.
           sendFrame m cb t tx = Some (Inr (m', tx'))
         \<and> frameID m' = stamped_id m tx
         \<and> written (effects tx') = written (effects tx) @ wire
         \<and> (\<forall>chunks. concat chunks = wire \<longrightarrow>
               state (fold accept chunks rx) = S_sof
             \<and> effects (fold accept chunks rx) =
                 effects rx @ dispatch rx
                   \<lparr>frameID = frameID m', msg_type = msg_type m, msg_data = msg_data m,
                    isResponse = False\<rparr>)"
proof -
  from sink obtain tx' where
    sent: "sendFrame m cb t tx = Some (Inr (m\<lparr>frameID := stamped_id m tx\<rparr>, tx'))"
    and wire: "written (effects tx') = written (effects tx) @ frame_bytes m tx"
    using sendFrame_transport [of tx m cb t] by blast
  have parsed: "fold acceptByte (frame_bytes m tx) rx =
     rx\<lparr>state := S_sof, partLen := 0,
        currentID := stamped_id m tx,
        len := int (length (msg_data m)),
        currentType := msg_type m,
        cksum := cksum_sum c (msg_data m),
        data := msg_data m,
        effects := effects rx @ dispatch rx
          \<lparr>frameID = stamped_id m tx, msg_type = msg_type m,
           msg_data = msg_data m, isResponse = False\<rparr>\<rparr>"
    using cfg sizes sof ck rx msg by (rule parse_sent_frame)
  have "state (fold accept chunks rx) = S_sof
      \<and> effects (fold accept chunks rx) =
          effects rx @ dispatch rx
            \<lparr>frameID = stamped_id m tx, msg_type = msg_type m, msg_data = msg_data m,
             isResponse = False\<rparr>"
    if "concat chunks = frame_bytes m tx" for chunks
    using that by (simp add: fold_accept_concat parsed)
  with sent wire show ?thesis
    by (intro exI [of _ "m\<lparr>frameID := stamped_id m tx\<rparr>"] exI [of _ tx']
        exI [of _ "frame_bytes m tx"]) simp
qed

text \<open>
  The theorem at the engines and the payload of the test suite, the frame split after
  its fifth byte.
\<close>

theorem send_then_accept_roundtrip_witness:
  "\<exists>m' tx'.
     sendFrame (Message_new 257 [222, 173, 190, 239, 0, 1]) None None tx_default = Some (Inr (m', tx'))
     \<and> effects (fold accept [take 5 (written (effects tx')), drop 5 (written (effects tx'))] rx_default)
         = [Call 0 \<lparr>frameID = frameID m', msg_type = 257,
                     msg_data = [222, 173, 190, 239, 0, 1], isResponse = False\<rparr>]"
proof -
  let ?m = "Message_new 257 [222, 173, 190, 239, 0, 1]"
  have "\<exists>m' tx' wire.
           sendFrame ?m None None tx_default = Some (Inr (m', tx'))
         \<and> frameID m' = stamped_id ?m tx_default
         \<and> written (effects tx') = written (effects tx_default) @ wire
         \<and> (\<forall>chunks. concat chunks = wire \<longrightarrow>
               state (fold accept chunks rx_default) = S_sof
             \<and> effects (fold accept chunks rx_default) =
                 effects rx_default @ dispatch rx_default
                   \<lparr>frameID = frameID m', msg_type = msg_type ?m, msg_data = msg_data ?m,
                    isResponse = False\<rparr>)"
  proof (rule send_then_accept_roundtrip [where c = checksum_xor])
    show "same_config tx_default rx_default"
      by (simp add: same_config_def tx_default_def rx_default_def addGenericListener_def
          TinyFrame_new_def)
    show "0 < idSize tx_default" "0 < lenSize tx_default" "0 < typeSize tx_default"
      "0 < chunkSize tx_default" "writeSink tx_default = Transport"
      "checksum tx_default = Some checksum_xor"
      "case sofByte tx_default of Some s \<Rightarrow> 0 \<le> s \<and> s < 256 | None \<Rightarrow> True"
      by (simp_all add: tx_default_def TinyFrame_new_def)
    show "checksum_contract checksum_xor" by (rule checksum_xor_contract)
    show "state rx_default = S_sof" "\<not> timed_out rx_default"
      by (simp_all add: rx_default_def addGenericListener_def TinyFrame_new_def timed_out_def)
    show "msg_data ?m \<noteq> []" "fits (lenSize tx_default) (int (length (msg_data ?m)))"
      "fits (typeSize tx_default) (msg_type ?m)" "fits (idSize tx_default) (raw_id ?m tx_default)"
      by (simp_all add: Message_new_def tx_default_def TinyFrame_new_def fits_def raw_id_def)
  qed
  then obtain m' tx' wire where
    sent: "sendFrame ?m None None tx_default = Some (Inr (m', tx'))"
    and wire: "written (effects tx') = written (effects tx_default) @ wire"
    and recv: "\<And>chunks. concat chunks = wire \<Longrightarrow>
             effects (fold accept chunks rx_default) =
                 effects rx_default @ dispatch rx_default
                   \<lparr>frameID = frameID m', msg_type = msg_type ?m, msg_data = msg_data ?m,
                    isResponse = False\<rparr>"
    by blast
  from wire have w: "wire = written (effects tx')"
    by (simp add: tx_default_def TinyFrame_new_def)
  have "effects (fold accept [take 5 wire, drop 5 wire] rx_default) =
          effects rx_default @ dispatch rx_default
                   \<lparr>frameID = frameID m', msg_type = msg_type ?m, msg_data = msg_data ?m,
                    isResponse = False\<rparr>"
    by (rule recv) simp
  then have "effects (fold accept [take 5 (written (effects tx')), drop 5 (written (effects tx'))] rx_default)
         = [Call 0 \<lparr>frameID = frameID m', msg_type = 257,
                     msg_data = [222, 173, 190, 239, 0, 1], isResponse = False\<rparr>]"
    by (simp add: w rx_default_def addGenericListener_def TinyFrame_new_def dispatch_def
        Message_new_def)
  with sent show ?thesis by blast
qed

text \<open>
  Claim C1 as stated fails for a message whose type does not fit the type field: the
  default engines, four bytes of type, the type \<open>2 ^ 32 + 5\<close>. The receiver dispatches
  the type 5.
\<close>

theorem roundtrip_type_counterexample:
  "(case send (Message_new 4294967301 [1]) tx_default of
      Some (Inr (m, tx)) \<Rightarrow>
        msg_type m = 4294967301
        \<and> effects (accept (written (effects tx)) rx_default)
            = [Call 0 \<lparr>frameID = frameID m, msg_type = 5, msg_data = [1], isResponse = False\<rparr>]
    | Some (Inl failure) \<Rightarrow> False
    | None \<Rightarrow> False)"
  by code_simp

text \<open>
  Two behaviours that the amended claim leaves out, at the master engines with
  \<open>checksum = null\<close>: the payload arrives behind the bytes of the header, since the data
  buffer is cleared only on the way through the header checksum; and a frame with an
  empty payload is never dispatched, the parser waiting in state \<open>data\<close> for a byte count
  that equals 0.
\<close>

lemma null_checksum_data_keeps_header:
  "(case send (Message_new 1 [7]) (tx_master\<lparr>checksum := None\<rparr>) of
      Some (Inr (m, tx)) \<Rightarrow>
        written (effects tx) = [0, 0, 0, 0, 0, 0, 0, 1, 0, 0, 0, 1, 7]
        \<and> effects (accept (written (effects tx)) (rx_master\<lparr>checksum := None\<rparr>))
            = [Call 0 \<lparr>frameID = 0, msg_type = 1,
                        msg_data = [0, 0, 0, 0, 0, 0, 0, 1, 0, 0, 0, 1, 7], isResponse = False\<rparr>]
    | Some (Inl failure) \<Rightarrow> False
    | None \<Rightarrow> False)"
  by code_simp

lemma null_checksum_empty_payload_stalls:
  "(case send (Message_new 1 []) (tx_master\<lparr>checksum := None\<rparr>) of
      Some (Inr (m, tx)) \<Rightarrow>
        written (effects tx) = [0, 0, 0, 0, 0, 0, 0, 0, 0, 0, 0, 1]
        \<and> effects (accept (written (effects tx)) (rx_master\<lparr>checksum := None\<rparr>)) = []
        \<and> state (accept (written (effects tx)) (rx_master\<lparr>checksum := None\<rparr>)) = S_data
    | Some (Inl failure) \<Rightarrow> False
    | None \<Rightarrow> False)"
  by code_simp

section \<open>The window of the header checksum\<close>

text \<open>
  Claim C3, as amended. With a start byte and a checksum strategy configured, the header
  checksum that \<open>composeHead\<close> emits is the strategy's sum over the start byte followed
  by the ID, length and type bytes. The parser validates over the same window: after the
  header of a frame with a payload, whatever checksum bytes follow, it goes on to state
  \<open>data\<close> exactly when they spell the sum over the start byte and the three fields, and
  back to \<open>sof\<close> otherwise, calling no listener either way.
\<close>

theorem header_checksum_window:
  assumes cfg: "same_config tx rx"
    and sizes: "0 < idSize tx" "0 < lenSize tx" "0 < typeSize tx"
    and sof: "sofByte tx = Some s" "0 \<le> s" "s < 256"
    and ck: "checksum tx = Some c" "0 < cksum_size c"
    and rx: "state rx = S_sof" "\<not> timed_out rx"
    and msg: "msg_data m \<noteq> []" "fits (lenSize tx) (int (length (msg_data m)))"
  shows "fst (composeHead m tx)
           = header_fields m tx @ writeUIntBE (cksum_sum c (header_fields m tx)) (cksum_size c)
       \<and> header_fields m tx
           = ToUint8 s # writeUIntBE (stamped_id m tx) (idSize tx)
             @ writeUIntBE (int (length (msg_data m))) (lenSize tx)
             @ writeUIntBE (msg_type m) (typeSize tx)
       \<and> (\<forall>hck. length hck = cksum_size c \<longrightarrow>
             effects (fold acceptByte (header_fields m tx @ hck) rx) = effects rx
           \<and> state (fold acceptByte (header_fields m tx @ hck) rx)
               = (if cksum_sum c (header_fields m tx) = uint (foldl acc32 0 hck)
                  then S_data else S_sof))"
proof -
  let ?ids = "writeUIntBE (stamped_id m tx) (idSize tx)"
  let ?lens = "writeUIntBE (int (length (msg_data m))) (lenSize tx)"
  let ?types = "writeUIntBE (msg_type m) (typeSize tx)"
  have hdr: "header_fields m tx = [ToUint8 s] @ ?ids @ ?lens @ ?types"
    using sof by (simp add: header_fields_def sofPart_def)
  have sent: "fst (composeHead m tx)
           = header_fields m tx @ writeUIntBE (cksum_sum c (header_fields m tx)) (cksum_size c)"
    using ck by (simp add: composeHead_eq cksum_field_def)
  have rlen: "sint (foldl acc32 0 ?lens) = int (length (msg_data m))"
    using sint_take_bit_fits [OF msg(2)] by (simp only: be32_writeUIntBE)
  define e where "e = rx\<lparr>state := S_headcksum, partLen := 0,
       currentID := sint (foldl acc32 0 ?ids),
       len := sint (foldl acc32 0 ?lens),
       currentType := sint (foldl acc32 0 ?types),
       cksum := 0,
       data := [ToUint8 s] @ ?ids @ ?lens @ ?types\<rparr>"
  have parsed: "fold acceptByte ([ToUint8 s] @ ?ids @ ?lens @ ?types) rx = e"
    unfolding e_def
  proof (rule parse_header [where c = c])
    show "state rx = S_sof" "\<not> timed_out rx" by (fact rx)+
    show "checksum rx = Some c" using cfg ck by (simp add: same_config_def)
    show "0 < idSize rx" "0 < lenSize rx" "0 < typeSize rx"
      using cfg sizes by (simp_all add: same_config_def)
    show "case sofByte rx of Some s' \<Rightarrow> (\<exists>sb. [ToUint8 s] = [sb] \<and> uint sb = s') | None \<Rightarrow> [ToUint8 s] = []"
      using cfg sof by (simp add: same_config_def uint_ToUint8)
    show "length ?ids = idSize rx" "length ?lens = lenSize rx" "length ?types = typeSize rx"
      using cfg by (simp_all add: same_config_def length_writeUIntBE)
  qed
  have pe: "state e = S_headcksum" "\<not> timed_out e" "checksum e = Some c" "cksum e = 0"
    "partLen e = 0" "len e \<noteq> 0" "data e = header_fields m tx" "effects e = effects rx"
    using rx cfg ck msg(1) by (simp_all add: e_def same_config_def rlen hdr)
  have "effects (fold acceptByte (header_fields m tx @ hck) rx) = effects rx
      \<and> state (fold acceptByte (header_fields m tx @ hck) rx)
          = (if cksum_sum c (header_fields m tx) = uint (foldl acc32 0 hck) then S_data else S_sof)"
    if "length hck = cksum_size c" for hck
  proof -
    have "fold acceptByte (header_fields m tx) rx = e"
      using parsed by (simp only: hdr)
    then have "fold acceptByte (header_fields m tx @ hck) rx = fold acceptByte hck e"
      by simp
    also have "\<dots> =
       (if cksum_sum c (data e) \<noteq> uint (foldl acc32 0 hck)
        then e\<lparr>cksum := uint (foldl acc32 0 hck), partLen := 0, state := S_sof\<rparr>
        else if len e = 0
           then resetParser (handleReceived
                  (e\<lparr>cksum := uint (foldl acc32 0 hck), partLen := cksum_size c,
                     data := data e @ [last hck]\<rparr>))
           else e\<lparr>cksum := uint (foldl acc32 0 hck), partLen := 0, data := [], state := S_data\<rparr>)"
      using pe(1-5) ck(2) that by (rule check_header)
    finally show ?thesis
      using pe(6-8) by simp
  qed
  with sent hdr show ?thesis by simp
qed

text \<open>
  The theorem at an engine with the start byte 1 and the XOR checksum: the emitted
  checksum is 2, the parser accepts 2 and rejects 3.
\<close>

lemma tx_sof_header:
  "header_fields (Message_new 2 [9]) tx_sof = [1, 0, 0, 0, 0, 0, 0, 0, 1, 0, 0, 0, 2]"
  by code_simp

lemma tx_sof_sum:
  "cksum_sum checksum_xor [1, 0, 0, 0, 0, 0, 0, 0, 1, 0, 0, 0, 2] = 2"
  by code_simp

theorem header_checksum_window_witness:
  "fst (composeHead (Message_new 2 [9]) tx_sof) = [1, 0, 0, 0, 0, 0, 0, 0, 1, 0, 0, 0, 2, 2]
   \<and> state (fold acceptByte ([1, 0, 0, 0, 0, 0, 0, 0, 1, 0, 0, 0, 2] @ [2]) rx_sof) = S_data
   \<and> state (fold acceptByte ([1, 0, 0, 0, 0, 0, 0, 0, 1, 0, 0, 0, 2] @ [3]) rx_sof) = S_sof"
proof -
  let ?m = "Message_new 2 [9]"
  have w: "writeUIntBE 2 1 = [2]" by code_simp
  have "fst (composeHead ?m tx_sof)
           = header_fields ?m tx_sof
             @ writeUIntBE (cksum_sum checksum_xor (header_fields ?m tx_sof)) (cksum_size checksum_xor)
       \<and> header_fields ?m tx_sof
           = ToUint8 1 # writeUIntBE (stamped_id ?m tx_sof) (idSize tx_sof)
             @ writeUIntBE (int (length (msg_data ?m))) (lenSize tx_sof)
             @ writeUIntBE (msg_type ?m) (typeSize tx_sof)
       \<and> (\<forall>hck. length hck = cksum_size checksum_xor \<longrightarrow>
             effects (fold acceptByte (header_fields ?m tx_sof @ hck) rx_sof) = effects rx_sof
           \<and> state (fold acceptByte (header_fields ?m tx_sof @ hck) rx_sof)
               = (if cksum_sum checksum_xor (header_fields ?m tx_sof) = uint (foldl acc32 0 hck)
                  then S_data else S_sof))"
  proof (rule header_checksum_window)
    show "same_config tx_sof rx_sof"
      by (simp add: same_config_def tx_sof_def rx_sof_def tx_master_def rx_master_def
          addGenericListener_def TinyFrame_new_def)
    show "0 < idSize tx_sof" "0 < lenSize tx_sof" "0 < typeSize tx_sof"
      "sofByte tx_sof = Some 1" "checksum tx_sof = Some checksum_xor"
      by (simp_all add: tx_sof_def tx_master_def TinyFrame_new_def)
    show "(0 :: int) \<le> 1" "(1 :: int) < 256" by simp_all
    show "0 < cksum_size checksum_xor" by (simp add: checksum_xor_def)
    show "state rx_sof = S_sof" "\<not> timed_out rx_sof"
      by (simp_all add: rx_sof_def rx_master_def addGenericListener_def TinyFrame_new_def
          timed_out_def)
    show "msg_data ?m \<noteq> []" "fits (lenSize tx_sof) (int (length (msg_data ?m)))"
      by (simp_all add: Message_new_def tx_sof_def tx_master_def TinyFrame_new_def fits_def)
  qed
  then have sent: "fst (composeHead ?m tx_sof)
           = header_fields ?m tx_sof
             @ writeUIntBE (cksum_sum checksum_xor (header_fields ?m tx_sof)) (cksum_size checksum_xor)"
    and check: "\<And>hck. length hck = cksum_size checksum_xor \<Longrightarrow>
          state (fold acceptByte (header_fields ?m tx_sof @ hck) rx_sof)
               = (if cksum_sum checksum_xor (header_fields ?m tx_sof) = uint (foldl acc32 0 hck)
                  then S_data else S_sof)"
    by blast+
  have sz: "cksum_size checksum_xor = 1" by (simp add: checksum_xor_def)
  have l: "length [2 :: byte] = cksum_size checksum_xor" "length [3 :: byte] = cksum_size checksum_xor"
    by (simp_all add: sz)
  have u: "uint (foldl acc32 0 [2]) = 2" "uint (foldl acc32 0 [3]) = 3"
    by (simp_all add: acc32_def)
  have "fst (composeHead ?m tx_sof) = [1, 0, 0, 0, 0, 0, 0, 0, 1, 0, 0, 0, 2] @ [2]"
    using sent by (simp only: tx_sof_header tx_sof_sum sz w)
  moreover have "state (fold acceptByte ([1, 0, 0, 0, 0, 0, 0, 0, 1, 0, 0, 0, 2] @ [2]) rx_sof) = S_data"
  proof -
    from check [OF l(1)]
    have "state (fold acceptByte ([1, 0, 0, 0, 0, 0, 0, 0, 1, 0, 0, 0, 2] @ [2]) rx_sof)
        = (if (2 :: int) = 2 then S_data else S_sof)"
      by (simp only: tx_sof_header tx_sof_sum u)
    also have "\<dots> = S_data" by simp
    finally show ?thesis .
  qed
  moreover have "state (fold acceptByte ([1, 0, 0, 0, 0, 0, 0, 0, 1, 0, 0, 0, 2] @ [3]) rx_sof) = S_sof"
  proof -
    from check [OF l(2)]
    have "state (fold acceptByte ([1, 0, 0, 0, 0, 0, 0, 0, 1, 0, 0, 0, 2] @ [3]) rx_sof)
        = (if (2 :: int) = 3 then S_data else S_sof)"
      by (simp only: tx_sof_header tx_sof_sum u)
    also have "\<dots> = S_sof" by simp
    finally show ?thesis .
  qed
  ultimately show ?thesis by simp
qed

text \<open>
  Claim C3 as stated fails: with the start byte 1, the header ends in the checksum 2,
  while the sum over the ID, length and type bytes alone is 3; and the parser drops the
  frame whose header checksum is 3 and dispatches the one whose header checksum is 2.
\<close>

theorem header_checksum_excludes_sof_counterexample:
  "fst (composeHead (Message_new 2 [9]) tx_sof) = [1, 0, 0, 0, 0, 0, 0, 0, 1, 0, 0, 0, 2, 2]
   \<and> writeUIntBE (cksum_sum checksum_xor [0, 0, 0, 0, 0, 0, 0, 1, 0, 0, 0, 2]) 1 = [3]
   \<and> effects (accept [1, 0, 0, 0, 0, 0, 0, 0, 1, 0, 0, 0, 2, 3, 9, 9] rx_sof) = []
   \<and> effects (accept [1, 0, 0, 0, 0, 0, 0, 0, 1, 0, 0, 0, 2, 2, 9, 9] rx_sof)
       = [Call 0 \<lparr>frameID = 0, msg_type = 2, msg_data = [9], isResponse = False\<rparr>]"
  by code_simp

section \<open>Removing and renewing listeners\<close>

lemma findIndex_first:
  "\<forall>x\<in>set xs. \<not> p x \<Longrightarrow> p l \<Longrightarrow> findIndex p (xs @ l # ys) = Some (length xs)"
  by (induction xs) simp_all

lemma splice1_at: "splice1 (length xs) (xs @ l # ys) = xs @ ys"
  by (simp add: splice1_def)

text \<open>
  Claim C9. Where the first entry with the callback \<open>cb\<close> is \<open>l\<close>, between \<open>xs\<close> and
  \<open>ys\<close>, \<open>removeIDListener cb\<close> deletes \<open>l\<close> and nothing else: the entries of \<open>ys\<close> stay,
  also those with the same callback. \<open>renewIDListener cb\<close> keeps every entry in place and
  sets the countdown of each entry with the callback \<open>cb\<close> to that entry's \<open>maxTimeout\<close>.
\<close>

theorem removeIDListener_first_renewIDListener_all:
  assumes "idListeners e = xs @ l # ys"
    and "callback l = cb"
    and "\<forall>x\<in>set xs. callback x \<noteq> cb"
  shows "removeIDListener cb e = e\<lparr>idListeners := xs @ ys\<rparr>
       \<and> length (idListeners (renewIDListener cb e)) = length (idListeners e)
       \<and> (\<forall>i < length (idListeners e).
            idListeners (renewIDListener cb e) ! i =
              (if callback (idListeners e ! i) = cb
               then (idListeners e ! i)\<lparr>timeout := maxTimeout (idListeners e ! i)\<rparr>
               else idListeners e ! i))"
proof -
  have "removeIDListener cb e = e\<lparr>idListeners := xs @ ys\<rparr>"
    using assms by (simp add: removeIDListener_def findIndex_first splice1_at)
  moreover have "length (idListeners (renewIDListener cb e)) = length (idListeners e)"
    by (simp add: renewIDListener_def)
  moreover have "\<forall>i < length (idListeners e).
            idListeners (renewIDListener cb e) ! i =
              (if callback (idListeners e ! i) = cb
               then (idListeners e ! i)\<lparr>timeout := maxTimeout (idListeners e ! i)\<rparr>
               else idListeners e ! i)"
    by (simp add: renewIDListener_def)
  ultimately show ?thesis by blast
qed

lemma four_listeners_entries:
  "idListeners four_listeners =
     [\<lparr>entry_id = 0, callback = 6, timeout = None, maxTimeout = None\<rparr>]
     @ \<lparr>entry_id = 1, callback = 7, timeout = Some 8, maxTimeout = Some 9\<rparr>
     # [\<lparr>entry_id = 2, callback = 8, timeout = Some 3, maxTimeout = Some 4\<rparr>,
        \<lparr>entry_id = 3, callback = 7, timeout = Some 4, maxTimeout = Some 5\<rparr>]"
  by code_simp

theorem removeIDListener_first_renewIDListener_all_witness:
  "idListeners (removeIDListener 7 four_listeners) =
     [\<lparr>entry_id = 0, callback = 6, timeout = None, maxTimeout = None\<rparr>,
      \<lparr>entry_id = 2, callback = 8, timeout = Some 3, maxTimeout = Some 4\<rparr>,
      \<lparr>entry_id = 3, callback = 7, timeout = Some 4, maxTimeout = Some 5\<rparr>]
   \<and> idListeners (renewIDListener 7 four_listeners) ! 1 =
       \<lparr>entry_id = 1, callback = 7, timeout = Some 9, maxTimeout = Some 9\<rparr>
   \<and> idListeners (renewIDListener 7 four_listeners) ! 2 =
       \<lparr>entry_id = 2, callback = 8, timeout = Some 3, maxTimeout = Some 4\<rparr>
   \<and> idListeners (renewIDListener 7 four_listeners) ! 3 =
       \<lparr>entry_id = 3, callback = 7, timeout = Some 5, maxTimeout = Some 5\<rparr>"
  using removeIDListener_first_renewIDListener_all [OF four_listeners_entries, of 7]
  by (simp add: four_listeners_entries)

section \<open>The response flag\<close>

text \<open>
  Whenever \<open>respond\<close> returns, the message it leaves has \<open>isResponse = false\<close>, whatever
  the flag was before.
\<close>

lemma respond_returns_flag_cleared:
  assumes "writeSink e = Transport" "0 < chunkSize e"
  shows "\<exists>e'. respond m e
           = Some (Inr (m\<lparr>isResponse := False, frameID := stamped_id (m\<lparr>isResponse := True\<rparr>) e\<rparr>, e'))"
proof -
  from assms obtain e' where
    "sendFrame (m\<lparr>isResponse := True\<rparr>) None None e
       = Some (Inr ((m\<lparr>isResponse := True\<rparr>)\<lparr>frameID := stamped_id (m\<lparr>isResponse := True\<rparr>) e\<rparr>, e'))"
    using sendFrame_transport [of e "m\<lparr>isResponse := True\<rparr>" None None] by blast
  then show ?thesis
    by (simp add: respond_def send_def)
qed

text \<open>
  Claim C5. \<open>respond\<close> sends with \<open>isResponse = true\<close> and should leave the flag as the
  caller had it. A message made by \<open>createResponse\<close> has the flag set; after \<open>respond\<close>
  has returned the flag is cleared.
\<close>

theorem respond_clears_isResponse:
  "isResponse (createResponse (Message_new 66 [16]) [255])
   \<and> (case respond (createResponse (Message_new 66 [16]) [255]) tx_master of
        Some (Inr (message, this)) \<Rightarrow> \<not> isResponse message
      | Some (Inl failure) \<Rightarrow> False
      | None \<Rightarrow> False)"
  by code_simp

section \<open>The peer bit\<close>

lemma stamped_bit:
  assumes "0 < n" "n \<le> 4"
  shows "bit (word_of_int (js_or v (js_shl 1 (int n * 8 - 1))) :: 32 word) (8 * n - 1)"
proof -
  have "(int n * 8 - 1) mod 32 = int n * 8 - 1" using assms by simp
  moreover have "nat (int n * 8 - 1) = 8 * n - 1" using assms by simp
  moreover have "8 * n - 1 < 32" using assms by simp
  ultimately show ?thesis
    by (simp add: js_or_def js_shl_def bit_simps)
qed

lemma hd_writeLoop:
  "hd (writeLoop (Suc n) (uint (w :: 32 word))) = ucast (drop_bit (8 * n) w)"
proof (induction n arbitrary: w)
  case 0
  then show ?case by (simp add: low_byte)
next
  case (Suc n)
  have "length (writeLoop (Suc n) (uint (drop_bit 8 w))) \<noteq> 0"
    by (simp only: length_writeLoop)
  then have "writeLoop (Suc n) (uint (drop_bit 8 w)) \<noteq> []"
    by (simp only: length_0_conv not_False_eq_True)
  then have "hd (writeLoop (Suc n) (uint (drop_bit 8 w)) @ [ucast w])
      = hd (writeLoop (Suc n) (uint (drop_bit 8 w)))"
    by (rule hd_append2)
  then have "hd (writeLoop (Suc (Suc n)) (uint w)) = hd (writeLoop (Suc n) (uint (drop_bit 8 w)))"
    by (simp only: writeLoop_snoc [of "Suc n"])
  then show ?case
    by (simp only: Suc.IH) (simp add: drop_bit_drop_bit add.commute)
qed

lemma top_bit_of_field:
  assumes "0 < n" "n \<le> 4" "bit (word_of_int v :: 32 word) (8 * n - 1)"
  shows "bit (hd (writeUIntBE v n)) 7"
proof -
  obtain k where n: "n = Suc k" using assms(1) by (cases n) auto
  have "hd (writeUIntBE v n) = ucast (drop_bit (8 * k) (word_of_int v :: 32 word))"
    by (simp add: writeUIntBE_def js_ushr_def n hd_writeLoop del: writeLoop.simps)
  moreover have "8 * k + 7 = 8 * n - 1" using n by simp
  ultimately show ?thesis
    using assms(3) by (simp add: bit_simps add.commute)
qed

text \<open>
  Claim C10, as amended. \<open>new TinyFrame()\<close> has \<open>peer = 1\<close> and four ID bytes. On an engine with
  \<open>peer = 1\<close> and an ID field of one to four bytes, every ID that \<open>composeHead\<close> stamps
  into a message, allocated or taken from a response, has the bit \<open>8 * idSize - 1\<close> set,
  and the ID field of the header is that ID, so that its first byte has its top bit set.
\<close>

theorem default_peer_sets_top_bit:
  assumes "peer e = 1" and "0 < idSize e" and "idSize e \<le> 4"
  shows "peer (TinyFrame_new None :: 'cb TinyFrame) = 1
       \<and> idSize (TinyFrame_new None :: 'cb TinyFrame) = 4
       \<and> (case composeHead m (e :: 'cb TinyFrame) of (buffer, m', e') \<Rightarrow>
             bit (word_of_int (frameID m') :: 32 word) (8 * idSize e - 1)
           \<and> take (idSize e) (drop (length (sofPart e)) buffer) = writeUIntBE (frameID m') (idSize e)
           \<and> bit (hd (writeUIntBE (frameID m') (idSize e))) 7)"
proof -
  have b: "bit (word_of_int (stamped_id m e) :: 32 word) (8 * idSize e - 1)"
    using assms stamped_bit [of "idSize e" "raw_id m e"] by (simp add: stamped_id_def)
  then have "bit (hd (writeUIntBE (stamped_id m e) (idSize e))) 7"
    using assms by (intro top_bit_of_field)
  with b show ?thesis
    by (simp add: TinyFrame_new_def composeHead_eq header_fields_def length_writeUIntBE)
qed

theorem default_peer_sets_top_bit_witness:
  "(case composeHead (Message_new 257 [1]) tx_default of (buffer, m', e') \<Rightarrow>
      bit (word_of_int (frameID m') :: 32 word) 31
    \<and> take 4 buffer = writeUIntBE (frameID m') 4
    \<and> bit (hd (writeUIntBE (frameID m') 4)) 7)"
  using default_peer_sets_top_bit [of tx_default "Message_new 257 [1]"]
  by (simp add: tx_default_def TinyFrame_new_def sofPart_def)

text \<open>
  Claim C10 as stated, for any width of the ID field, fails from five bytes on: the shift
  count of \<open>1 << (idSize * 8 - 1)\<close> is taken modulo 32, so with \<open>idSize = 5\<close> a new
  engine with \<open>peer = 1\<close> stamps the ID 128, and the first byte of the ID field is 0.
\<close>

theorem default_peer_top_bit_counterexample:
  "peer (tx_default\<lparr>idSize := 5\<rparr>) = 1
   \<and> (case composeHead (Message_new 257 [1]) (tx_default\<lparr>idSize := 5\<rparr>) of
        (buffer, m', e') \<Rightarrow>
          frameID m' = 128 \<and> take 5 buffer = [0, 0, 0, 0, 128] \<and> hd buffer = 0)"
  by code_simp

section \<open>The missing write sink\<close>

lemma frame_bytes_empty:
  "frame_bytes m e = [] \<longleftrightarrow>
     idSize e = 0 \<and> lenSize e = 0 \<and> typeSize e = 0 \<and> sofByte e = None \<and> msg_data m = []
     \<and> (case checksum e of Some c \<Rightarrow> cksum_size c = 0 | None \<Rightarrow> True)"
proof -
  have "writeUIntBE v n = [] \<longleftrightarrow> n = 0" for v n
    using length_writeUIntBE [of v n] by (metis length_0_conv)
  then show ?thesis
    by (auto simp add: frame_bytes_def header_fields_def sofPart_def cksum_field_def body_bytes_def
        split: option.splits)
qed

text \<open>
  Claim C8, as amended. On an engine whose write sink was never assigned, \<open>sendFrame\<close>
  throws \<open>No write implementation\<close> whenever the frame has at least one byte, that is
  unless all three field widths are 0, no start byte is configured, the payload is empty
  and the checksum (if any) has width 0. The exception leaves \<open>claimTx\<close> called, the ID
  stamped and the listener of a query registered; \<open>releaseTx\<close> is not called. With an
  empty frame the sink is never called and the send returns. \<open>send\<close>, \<open>query\<close> and
  \<open>respond\<close> all go through \<open>sendFrame\<close>.
\<close>

theorem send_without_sink:
  assumes "writeSink e = NoWriteImplementation"
  shows "sendFrame m cb t e =
           (if idSize e = 0 \<and> lenSize e = 0 \<and> typeSize e = 0 \<and> sofByte e = None \<and> msg_data m = []
               \<and> (case checksum e of Some c \<Rightarrow> cksum_size c = 0 | None \<Rightarrow> True)
            then Some (Inr (m\<lparr>frameID := stamped_id m e\<rparr>,
                   (after_head m cb t e)\<lparr>effects := effects e @ [ClaimTx, ReleaseTx]\<rparr>))
            else Some (Inl (Error ''No write implementation'', m\<lparr>frameID := stamped_id m e\<rparr>,
                   after_head m cb t e)))
       \<and> effects (after_head m cb t e) = effects e @ [ClaimTx]
       \<and> send m e = sendFrame m None None e
       \<and> query m listener t e = sendFrame m (Some listener) t e
       \<and> respond m e =
           (case sendFrame (m\<lparr>isResponse := True\<rparr>) None None e of
              Some (Inr (m1, e1)) \<Rightarrow> Some (Inr (m1\<lparr>isResponse := False\<rparr>, e1))
            | Some (Inl failure) \<Rightarrow> Some (Inl failure)
            | None \<Rightarrow> None)"
proof -
  have entry: "send m e = sendFrame m None None e"
    "query m listener t e = sendFrame m (Some listener) t e"
    "respond m e =
           (case sendFrame (m\<lparr>isResponse := True\<rparr>) None None e of
              Some (Inr (m1, e1)) \<Rightarrow> Some (Inr (m1\<lparr>isResponse := False\<rparr>, e1))
            | Some (Inl failure) \<Rightarrow> Some (Inl failure)
            | None \<Rightarrow> None)"
    by (simp_all add: send_def query_def respond_def split: option.split sum.split)
  have s: "writeSink (after_head m cb t e) = NoWriteImplementation"
    using assms by (simp add: after_head_def Let_def addIDListener_def split: option.split)
  have fx: "effects (after_head m cb t e) = effects e @ [ClaimTx]"
    by (simp add: after_head_def Let_def addIDListener_def split: option.split)
  show ?thesis
  proof (cases "frame_bytes m e = []")
    case True
    then show ?thesis
      using frame_bytes_empty [of m e] entry by (simp add: sendFrame_eq writeChunks_empty fx)
  next
    case False
    then have "writeChunks (frame_bytes m e) 0 (after_head m cb t e)
        = Some (Inl (Error ''No write implementation'', after_head m cb t e))"
      using s by (intro writeChunks_no_sink)
    then show ?thesis
      using False frame_bytes_empty [of m e] entry by (simp add: sendFrame_eq fx)
  qed
qed

text \<open>The theorem at \<open>new TinyFrame()\<close>, used before a sink is assigned.\<close>

theorem send_without_sink_witness:
  "(case send (Message_new 257 [1]) (TinyFrame_new None :: nat TinyFrame) of
      Some (Inl (err, m, e)) \<Rightarrow> err = Error ''No write implementation'' \<and> effects e = [ClaimTx]
    | Some (Inr done) \<Rightarrow> False
    | None \<Rightarrow> False)"
  using send_without_sink [of "TinyFrame_new None :: nat TinyFrame" "Message_new 257 [1]" None None]
  by (simp add: TinyFrame_new_def Message_new_def)

text \<open>
  Claim C8 as stated fails on the engine of width 0: nothing is written, the default
  sink is not called, and the send returns.
\<close>

theorem send_without_sink_counterexample:
  "writeSink zero_width = NoWriteImplementation
   \<and> (case send (Message_new 5 []) zero_width of
        Some (Inr (m, e)) \<Rightarrow> effects e = [ClaimTx, ReleaseTx]
      | Some (Inl failure) \<Rightarrow> False
      | None \<Rightarrow> False)"
  by code_simp

section \<open>The frame ID counter\<close>

lemma wrapped_client_eq: "wrapped_client = tx_master\<lparr>idSize := 1, nextID := 256\<rparr>"
  by (simp add: wrapped_client_def allocations_eq tx_master_def TinyFrame_new_def)

lemma unwrapped_client_eq: "unwrapped_client = tx_master\<lparr>idSize := 1, nextID := 255\<rparr>"
  by (simp add: unwrapped_client_def allocations_eq tx_master_def TinyFrame_new_def)

lemma query_after_256_allocations:
  "(case query (Message_new 1 [7]) 9 None (tx_master\<lparr>idSize := 1, nextID := 256\<rparr>) of
      Some (Inr (m, client)) \<Rightarrow>
        frameID m = 256
        \<and> map entry_id (idListeners client) = [256]
        \<and> written (effects client) = [0, 0, 0, 0, 1, 0, 0, 0, 1, 0, 7, 7]
        \<and> effects (accept [0, 0, 0, 0, 1, 0, 0, 0, 1, 0, 255, 255] client)
            = [ClaimTx, Write [0, 0, 0, 0, 1, 0, 0, 0, 1, 0, 7, 7], ReleaseTx]
    | Some (Inl failure) \<Rightarrow> False
    | None \<Rightarrow> False)"
  by code_simp

lemma server_answers_id_0:
  "effects (accept [0, 0, 0, 0, 1, 0, 0, 0, 1, 0, 7, 7] wrapped_server)
     = [Call 0 \<lparr>frameID = 0, msg_type = 1, msg_data = [7], isResponse = False\<rparr>]
   \<and> (case respond (createResponse
              \<lparr>frameID = 0, msg_type = 1, msg_data = [7], isResponse = False\<rparr> [255])
            wrapped_server of
         Some (Inr (reply, server)) \<Rightarrow>
           frameID reply = 0 \<and> written (effects server) = [0, 0, 0, 0, 1, 0, 0, 0, 1, 0, 255, 255]
       | Some (Inl failure) \<Rightarrow> False
       | None \<Rightarrow> False)"
  by code_simp

lemma query_after_255_allocations:
  "(case query (Message_new 1 [7]) 9 None (tx_master\<lparr>idSize := 1, nextID := 255\<rparr>) of
      Some (Inr (m, client)) \<Rightarrow>
        frameID m = 255
        \<and> written (effects client) = [255, 0, 0, 0, 1, 0, 0, 0, 1, 255, 7, 7]
        \<and> effects (accept [255, 0, 0, 0, 1, 0, 0, 0, 1, 255, 255, 255] client)
            = [ClaimTx, Write [255, 0, 0, 0, 1, 0, 0, 0, 1, 255, 7, 7], ReleaseTx,
               Call 9 \<lparr>frameID = 255, msg_type = 1, msg_data = [255], isResponse = False\<rparr>]
    | Some (Inl failure) \<Rightarrow> False
    | None \<Rightarrow> False)"
  by code_simp

text \<open>
  Claim C6. The counter should wrap modulo \<open>2 ^ (8 * idSize)\<close>, so that the ID stamped
  into the message fits the ID field. It does not wrap. With a one-byte ID field and 256
  IDs allocated, a query stamps 256 into the message and registers its listener under
  256, while the ID byte on the wire is 0; the server reads the ID 0 and answers with
  it; fed to the client, the reply calls no listener. One allocation earlier the ID is
  255 on both sides and the reply calls the listener.
\<close>

theorem frame_id_counter_never_wraps:
  "(case query (Message_new 1 [7]) 9 None wrapped_client of
      Some (Inr (m, client)) \<Rightarrow>
        frameID m = 256
        \<and> map entry_id (idListeners client) = [256]
        \<and> written (effects client) = [0, 0, 0, 0, 1, 0, 0, 0, 1, 0, 7, 7]
        \<and> effects (accept [0, 0, 0, 0, 1, 0, 0, 0, 1, 0, 255, 255] client)
            = [ClaimTx, Write [0, 0, 0, 0, 1, 0, 0, 0, 1, 0, 7, 7], ReleaseTx]
    | Some (Inl failure) \<Rightarrow> False
    | None \<Rightarrow> False)
   \<and> (effects (accept [0, 0, 0, 0, 1, 0, 0, 0, 1, 0, 7, 7] wrapped_server)
        = [Call 0 \<lparr>frameID = 0, msg_type = 1, msg_data = [7], isResponse = False\<rparr>]
      \<and> (case respond (createResponse
                 \<lparr>frameID = 0, msg_type = 1, msg_data = [7], isResponse = False\<rparr> [255])
               wrapped_server of
            Some (Inr (reply, server)) \<Rightarrow>
              frameID reply = 0
              \<and> written (effects server) = [0, 0, 0, 0, 1, 0, 0, 0, 1, 0, 255, 255]
          | Some (Inl failure) \<Rightarrow> False
          | None \<Rightarrow> False))
   \<and> (case query (Message_new 1 [7]) 9 None unwrapped_client of
        Some (Inr (m, client)) \<Rightarrow>
          frameID m = 255
          \<and> written (effects client) = [255, 0, 0, 0, 1, 0, 0, 0, 1, 255, 7, 7]
          \<and> effects (accept [255, 0, 0, 0, 1, 0, 0, 0, 1, 255, 255, 255] client)
              = [ClaimTx, Write [255, 0, 0, 0, 1, 0, 0, 0, 1, 255, 7, 7], ReleaseTx,
                 Call 9 \<lparr>frameID = 255, msg_type = 1, msg_data = [255], isResponse = False\<rparr>]
      | Some (Inl failure) \<Rightarrow> False
      | None \<Rightarrow> False)"
  unfolding wrapped_client_eq unwrapped_client_eq
  by (intro conjI query_after_256_allocations server_answers_id_0 query_after_255_allocations)

section \<open>Empty payloads\<close>

text \<open>
  For every checksum strategy that keeps its contract: the frame of a message with an
  empty payload is the header followed by the header checksum, and the receiver
  dispatches a message whose data are the bytes of the header followed by the last byte
  of the header checksum.
\<close>

lemma empty_payload_dispatch:
  assumes cfg: "same_config tx rx"
    and sizes: "0 < idSize tx" "0 < lenSize tx" "0 < typeSize tx"
    and sof: "case sofByte tx of Some s \<Rightarrow> 0 \<le> s \<and> s < 256 | None \<Rightarrow> True"
    and ck: "checksum tx = Some c" "checksum_contract c"
    and rx: "state rx = S_sof" "\<not> timed_out rx"
    and msg: "msg_data m = []" "fits (typeSize tx) (msg_type m)" "fits (idSize tx) (raw_id m tx)"
  shows "frame_bytes m tx
           = header_fields m tx @ writeUIntBE (cksum_sum c (header_fields m tx)) (cksum_size c)
       \<and> effects (fold acceptByte (frame_bytes m tx) rx) =
           effects rx @ dispatch rx
             \<lparr>frameID = stamped_id m tx, msg_type = msg_type m,
              msg_data = header_fields m tx
                @ [last (writeUIntBE (cksum_sum c (header_fields m tx)) (cksum_size c))],
              isResponse = False\<rparr>"
proof -
  let ?ids = "writeUIntBE (stamped_id m tx) (idSize tx)"
  let ?lens = "writeUIntBE (int (length (msg_data m))) (lenSize tx)"
  let ?types = "writeUIntBE (msg_type m) (typeSize tx)"
  let ?hdr = "sofPart tx @ ?ids @ ?lens @ ?types"
  let ?hck = "writeUIntBE (cksum_sum c ?hdr) (cksum_size c)"
  have hdr: "header_fields m tx = ?hdr"
    by (simp add: header_fields_def)
  have frame: "frame_bytes m tx = ?hdr @ ?hck"
    using ck msg by (simp add: frame_bytes_def header_fields_def cksum_field_def body_bytes_def)
  have size: "0 < cksum_size c"
    using ck by (simp add: checksum_contract_def)
  have rid: "sint (foldl acc32 0 ?ids) = stamped_id m tx"
    using sizes msg by (simp add: be32_writeUIntBE received_stamped)
  have "fits (lenSize tx) (int (length (msg_data m)))"
    using msg by (simp add: fits_def)
  from sint_take_bit_fits [OF this] have rlen: "sint (foldl acc32 0 ?lens) = 0"
    using msg by (simp only: be32_writeUIntBE) simp
  have rtype: "sint (foldl acc32 0 ?types) = msg_type m"
    using msg by (simp add: be32_writeUIntBE sint_take_bit_fits)
  define e3 where "e3 = rx\<lparr>state := S_headcksum, partLen := 0,
       currentID := sint (foldl acc32 0 ?ids),
       len := sint (foldl acc32 0 ?lens),
       currentType := sint (foldl acc32 0 ?types),
       cksum := 0,
       data := ?hdr\<rparr>"
  have s3: "fold acceptByte ?hdr rx = e3"
    unfolding e3_def
  proof (rule parse_header [where c = c])
    show "state rx = S_sof" "\<not> timed_out rx" by (fact rx)+
    show "checksum rx = Some c" using cfg ck by (simp add: same_config_def)
    show "0 < idSize rx" "0 < lenSize rx" "0 < typeSize rx"
      using cfg sizes by (simp_all add: same_config_def)
    show "case sofByte rx of Some s \<Rightarrow> (\<exists>sb. sofPart tx = [sb] \<and> uint sb = s) | None \<Rightarrow> sofPart tx = []"
      using cfg sof by (simp add: same_config_def sofPart_def uint_ToUint8 split: option.splits)
    show "length ?ids = idSize rx" "length ?lens = lenSize rx" "length ?types = typeSize rx"
      using cfg by (simp_all add: same_config_def length_writeUIntBE)
  qed
  have p3: "state e3 = S_headcksum" "\<not> timed_out e3" "checksum e3 = Some c" "cksum e3 = 0"
    "partLen e3 = 0"
    using rx cfg ck by (simp_all add: e3_def same_config_def)
  have "fold acceptByte ?hck e3 =
     (if cksum_sum c (data e3) \<noteq> uint (foldl acc32 0 ?hck)
      then e3\<lparr>cksum := uint (foldl acc32 0 ?hck), partLen := 0, state := S_sof\<rparr>
      else if len e3 = 0
           then resetParser (handleReceived
                  (e3\<lparr>cksum := uint (foldl acc32 0 ?hck), partLen := cksum_size c,
                     data := data e3 @ [last ?hck]\<rparr>))
           else e3\<lparr>cksum := uint (foldl acc32 0 ?hck), partLen := 0, data := [], state := S_data\<rparr>)"
    using p3 size by (rule check_header) (simp add: length_writeUIntBE)
  moreover have "cksum_sum c (data e3) = uint (foldl acc32 0 ?hck)" "len e3 = 0"
    using ck by (simp_all add: e3_def cksum_received rlen)
  ultimately have s5: "fold acceptByte ?hck e3 =
      resetParser (handleReceived
                  (e3\<lparr>cksum := uint (foldl acc32 0 ?hck), partLen := cksum_size c,
                     data := data e3 @ [last ?hck]\<rparr>))"
    by simp
  have "fold acceptByte (frame_bytes m tx) rx = fold acceptByte ?hck (fold acceptByte ?hdr rx)"
    by (simp only: frame fold_append o_apply)
  also have "\<dots> = resetParser (handleReceived
                  (e3\<lparr>cksum := uint (foldl acc32 0 ?hck), partLen := cksum_size c,
                     data := data e3 @ [last ?hck]\<rparr>))"
    by (simp only: s3 s5)
  finally have "effects (fold acceptByte (frame_bytes m tx) rx) =
           effects rx @ dispatch rx
             \<lparr>frameID = stamped_id m tx, msg_type = msg_type m,
              msg_data = ?hdr @ [last ?hck], isResponse = False\<rparr>"
    by (simp add: handleReceived_eq resetParser_def dispatch_def e3_def rid rtype)
  with frame show ?thesis
    by (simp only: hdr) 
qed

text \<open>
  Claim C2. With the XOR checksum, the frame of a message with an empty payload ends
  with the header checksum and its length field is 0; the receiver should dispatch a
  message with no data. It dispatches one whose data are the twelve bytes of the header
  and the checksum byte: the buffer that collected the header is not cleared before the
  dispatch.
\<close>

theorem empty_payload_data_not_empty:
  "(case send (Message_new 257 []) tx_default of
      Some (Inr (m, tx)) \<Rightarrow>
        written (effects tx) = [128, 0, 0, 0, 0, 0, 0, 0, 0, 0, 1, 1, 128]
        \<and> effects (accept (written (effects tx)) rx_default)
            = [Call 0 \<lparr>frameID = - 2147483648, msg_type = 257,
                        msg_data = [128, 0, 0, 0, 0, 0, 0, 0, 0, 0, 1, 1, 128],
                        isResponse = False\<rparr>]
    | Some (Inl failure) \<Rightarrow> False
    | None \<Rightarrow> False)"
  by code_simp

section \<open>The parse timeout\<close>

text \<open>
  Once the tick counter is above the threshold it stays there, through every byte and
  every tick; from then on an engine without start byte and with more than one ID byte
  is put back to the first ID byte by each byte it accepts, and calls no listener.
\<close>

lemma timed_out_stays:
  assumes "timed_out e" "sofByte e = None" "1 < idSize e"
  shows "state (acceptByte b e) = S_id" "effects (acceptByte b e) = effects e"
    "timed_out (acceptByte b e)" "timed_out (tick (acceptByte b e))"
    "sofByte (acceptByte b e) = None" "idSize (acceptByte b e) = idSize e"
proof -
  have r: "checkParserTimeout e = resetParser e"
    using assms(1) by (simp add: checkParserTimeout_def timed_out_def split: option.splits)
  have "acceptByte b e = case_id b (beginFrame (resetParser e))"
    using assms(2) by (simp add: acceptByte_def r beginWithoutSof_def resetParser_def beginFrame_def)
  also have "\<dots> = (beginFrame (resetParser e))\<lparr>data := [b],
       currentID := sint (acc32 0 b), partLen := 1\<rparr>"
    using assms(3) by (simp add: case_id_eq beginFrame_def resetParser_def)
  finally have a: "acceptByte b e = (beginFrame (resetParser e))\<lparr>data := [b],
       currentID := sint (acc32 0 b), partLen := 1\<rparr>" .
  show "state (acceptByte b e) = S_id" "effects (acceptByte b e) = effects e"
    "sofByte (acceptByte b e) = None" "idSize (acceptByte b e) = idSize e"
    using assms by (simp_all add: a beginFrame_def resetParser_def)
  show t: "timed_out (acceptByte b e)"
    using assms(1) by (simp add: a beginFrame_def resetParser_def)
  then show "timed_out (tick (acceptByte b e))"
    by (auto simp add: timed_out_def tick_def Let_def split: option.splits)
qed

text \<open>
  Claim C4. With \<open>parserTimeout = 1\<close>, three frames arrive, each complete, with one
  tick between two frames. No frame is ever stalled, yet the third one is lost: the tick
  counter is 2 by then, above the threshold, and it is never set back, so the parser is
  reset before every byte from then on. Without the ticks all three frames are
  dispatched.
\<close>

theorem parse_timeout_never_restarts:
  "one_frame = [0, 0, 0, 0, 0, 0, 0, 1, 0, 0, 0, 1, 0, 7, 7]
   \<and> effects (accept one_frame (accept one_frame (accept one_frame
        (rx_master\<lparr>parserTimeout := Some 1\<rparr>))))
       = [Call 0 \<lparr>frameID = 0, msg_type = 1, msg_data = [7], isResponse = False\<rparr>,
          Call 0 \<lparr>frameID = 0, msg_type = 1, msg_data = [7], isResponse = False\<rparr>,
          Call 0 \<lparr>frameID = 0, msg_type = 1, msg_data = [7], isResponse = False\<rparr>]
   \<and> effects (accept one_frame (tick (accept one_frame (tick (accept one_frame
        (rx_master\<lparr>parserTimeout := Some 1\<rparr>))))))
       = [Call 0 \<lparr>frameID = 0, msg_type = 1, msg_data = [7], isResponse = False\<rparr>,
          Call 0 \<lparr>frameID = 0, msg_type = 1, msg_data = [7], isResponse = False\<rparr>]
   \<and> state (accept one_frame (tick (accept one_frame (tick (accept one_frame
        (rx_master\<lparr>parserTimeout := Some 1\<rparr>)))))) = S_id"
  by code_simp

end
